theory Spec2Isabelle
  imports Complex_Main
begin

section \<open>Errors and settled promises\<close>

text \<open>
  The patterns raise plain \<^verbatim>\<open>Error\<close> objects that differ only in their message. Each
  constructor below stands for one message template of the source:
  \<^item> \<open>CircuitOpenError\<close>: \<^verbatim>\<open>Circuit breaker ${name} is OPEN. Fast failing request.\<close>
  \<^item> \<open>CallTimeoutError\<close>: \<^verbatim>\<open>Circuit breaker ${name}: Request timeout after ${timeout}ms\<close>
  \<^item> \<open>QueueFullError\<close>: \<^verbatim>\<open>Bulkhead ${name}: Queue is full (${maxQueueSize})\<close>
  \<^item> \<open>QueueTimeoutError\<close>: \<^verbatim>\<open>Bulkhead ${name}: Task ${id} queue timeout after ...\<close>
  \<^item> \<open>ExecutionTimeoutError\<close>: \<^verbatim>\<open>Bulkhead ${name}: Task ${id} timeout after ...\<close>
  \<^item> \<open>QueueClearedError\<close>: \<^verbatim>\<open>Bulkhead ${name}: Queue cleared\<close>
  \<^item> \<open>ManualRecoveryError\<close>: \<^verbatim>\<open>Manual recovery triggered\<close>
  \<^item> \<open>OperationError msg\<close>: whatever the wrapped operation itself rejects with.
  \<^item> \<open>TypeError\<close>: what reading \<^verbatim>\<open>.message\<close> of \<^verbatim>\<open>undefined\<close> or \<^verbatim>\<open>null\<close> raises.
  A promise can also be rejected with a value that is no object at all: \<open>Nullish\<close> stands
  for \<^verbatim>\<open>undefined\<close> and \<^verbatim>\<open>null\<close> as a rejection reason (\<^verbatim>\<open>Promise.reject()\<close>), the values
  whose \<^verbatim>\<open>.message\<close> cannot be read.
\<close>

datatype error =
    CircuitOpenError
  | CallTimeoutError
  | QueueFullError
  | QueueTimeoutError
  | ExecutionTimeoutError
  | QueueClearedError
  | ManualRecoveryError
  | OperationError string
  | TypeError
  | Nullish

text \<open>How the promise returned by a wrapped asynchronous function settles.\<close>

datatype 'a settled = Resolved 'a | Rejected error

text \<open>
  What the promise of \<^verbatim>\<open>executeWithTimeout\<close> does: the function's own settlement, or
  the timer firing first.
\<close>

datatype 'a completion = Returned 'a | Threw error | TimedOut

section \<open>CircuitBreaker (src/patterns/CircuitBreaker.js)\<close>

datatype States = CLOSED | OPEN | HALF_OPEN

text \<open>The events handed to \<^verbatim>\<open>this.emit\<close>, with the payload fields that carry state.\<close>

datatype cb_event =
    StateChanged States States
  | SuccessEvent States
  | FailureEvent error nat States
  | CircuitOpened nat int
  | ResetEvent

text \<open>
  The fields of a breaker. Times are milliseconds as returned by \<^verbatim>\<open>Date.now()\<close>. The
  fields of \<^verbatim>\<open>this.metrics\<close> are kept flat; \<^verbatim>\<open>averageResponseTime\<close> (a floating-point
  moving average that no transition reads) and the logger calls are left out.
  \<open>cb_emitted\<close> collects the emitted events in order.
\<close>

record CircuitBreaker =
  cb_failureThreshold :: nat
  cb_resetTimeout :: int
  cb_timeout :: int
  cb_state :: States
  cb_failureCount :: nat
  cb_successCount :: nat
  cb_nextAttempt :: int
  cb_totalRequests :: nat
  cb_totalFailures :: nat
  cb_totalSuccesses :: nat
  cb_totalTimeouts :: nat
  cb_totalCircuitBreakerOpens :: nat
  cb_lastFailureTime :: "int option"
  cb_lastSuccessTime :: "int option"
  cb_stateHistory :: "(States \<times> int \<times> nat) list"
  cb_emitted :: "cb_event list"

text \<open>\<^verbatim>\<open>options.x || d\<close> on a numeric option: absent and 0 both give the default.\<close>

definition or_default_nat :: "nat option \<Rightarrow> nat \<Rightarrow> nat" where
  "or_default_nat x d = (case x of None \<Rightarrow> d | Some v \<Rightarrow> if v = 0 then d else v)"

definition or_default_int :: "int option \<Rightarrow> int \<Rightarrow> int" where
  "or_default_int x d = (case x of None \<Rightarrow> d | Some v \<Rightarrow> if v = 0 then d else v)"

text \<open>The constructor, called at time \<open>now\<close>.\<close>

definition CircuitBreaker_new ::
  "nat option \<Rightarrow> int option \<Rightarrow> int option \<Rightarrow> int \<Rightarrow> CircuitBreaker" where
  "CircuitBreaker_new failureThresholdOpt resetTimeoutOpt timeoutOpt now =
     \<lparr> cb_failureThreshold = or_default_nat failureThresholdOpt 5,
       cb_resetTimeout = or_default_int resetTimeoutOpt 60000,
       cb_timeout = or_default_int timeoutOpt 10000,
       cb_state = CLOSED,
       cb_failureCount = 0,
       cb_successCount = 0,
       cb_nextAttempt = now,
       cb_totalRequests = 0,
       cb_totalFailures = 0,
       cb_totalSuccesses = 0,
       cb_totalTimeouts = 0,
       cb_totalCircuitBreakerOpens = 0,
       cb_lastFailureTime = None,
       cb_lastSuccessTime = None,
       cb_stateHistory = [],
       cb_emitted = [] \<rparr>"

text \<open>\<^verbatim>\<open>history.slice(-100)\<close> once the history is longer than 100 entries.\<close>

definition keep_last_100 :: "'a list \<Rightarrow> 'a list" where
  "keep_last_100 h = (if length h > 100 then drop (length h - 100) h else h)"

definition CircuitBreaker_setState :: "CircuitBreaker \<Rightarrow> States \<Rightarrow> int \<Rightarrow> CircuitBreaker" where
  "CircuitBreaker_setState cb newState now =
     (let oldState = cb_state cb;
          cb1 = cb\<lparr>cb_state := newState\<rparr>;
          cb2 = cb1\<lparr>cb_stateHistory :=
                  keep_last_100 (cb_stateHistory cb1 @ [(newState, now, cb_failureCount cb1)])\<rparr>
      in if oldState \<noteq> newState
         then cb2\<lparr>cb_emitted := cb_emitted cb2 @ [StateChanged oldState newState]\<rparr>
         else cb2)"

definition CircuitBreaker_openCircuit :: "CircuitBreaker \<Rightarrow> int \<Rightarrow> CircuitBreaker" where
  "CircuitBreaker_openCircuit cb now =
     (let cb1 = CircuitBreaker_setState cb OPEN now;
          cb2 = cb1\<lparr>cb_nextAttempt := now + cb_resetTimeout cb1\<rparr>;
          cb3 = cb2\<lparr>cb_totalCircuitBreakerOpens := cb_totalCircuitBreakerOpens cb2 + 1\<rparr>
      in cb3\<lparr>cb_emitted := cb_emitted cb3 @
                 [CircuitOpened (cb_failureCount cb3) (cb_nextAttempt cb3)]\<rparr>)"

definition CircuitBreaker_onSuccess :: "CircuitBreaker \<Rightarrow> int \<Rightarrow> CircuitBreaker" where
  "CircuitBreaker_onSuccess cb now =
     (let cb1 = cb\<lparr>cb_failureCount := 0\<rparr>;
          cb2 = cb1\<lparr>cb_successCount := cb_successCount cb1 + 1\<rparr>;
          cb3 = cb2\<lparr>cb_totalSuccesses := cb_totalSuccesses cb2 + 1\<rparr>;
          cb4 = cb3\<lparr>cb_lastSuccessTime := Some now\<rparr>;
          cb5 = (if cb_state cb4 = HALF_OPEN then CircuitBreaker_setState cb4 CLOSED now else cb4)
      in cb5\<lparr>cb_emitted := cb_emitted cb5 @ [SuccessEvent (cb_state cb5)]\<rparr>)"

text \<open>
  \<^verbatim>\<open>onFailure\<close>. The argument of \<^verbatim>\<open>logger.warn\<close> reads \<^verbatim>\<open>error.message\<close>; for a rejection
  reason that is \<^verbatim>\<open>undefined\<close> or \<^verbatim>\<open>null\<close> this raises a type error, after the counters and
  before the threshold test and the \<^verbatim>\<open>emit\<close>. The first component is what \<^verbatim>\<open>onFailure\<close>
  itself throws, if anything.
\<close>

definition CircuitBreaker_onFailure ::
  "CircuitBreaker \<Rightarrow> error \<Rightarrow> int \<Rightarrow> error option \<times> CircuitBreaker" where
  "CircuitBreaker_onFailure cb err now =
     (let cb1 = cb\<lparr>cb_failureCount := cb_failureCount cb + 1\<rparr>;
          cb2 = cb1\<lparr>cb_totalFailures := cb_totalFailures cb1 + 1\<rparr>;
          cb3 = cb2\<lparr>cb_lastFailureTime := Some now\<rparr>
      in if err = Nullish then (Some TypeError, cb3)
         else
           (let cb4 = (if cb_failureCount cb3 \<ge> cb_failureThreshold cb3
                       then CircuitBreaker_openCircuit cb3 now else cb3)
            in (None, cb4\<lparr>cb_emitted := cb_emitted cb4 @
                            [FailureEvent err (cb_failureCount cb4) (cb_state cb4)]\<rparr>)))"

text \<open>
  The \<^verbatim>\<open>catch\<close> block of \<^verbatim>\<open>execute\<close>: \<^verbatim>\<open>onFailure\<close>, then the rethrow of the caught error,
  which is not reached when \<^verbatim>\<open>onFailure\<close> throws. The result is what the caller gets.
\<close>

definition CircuitBreaker_execute_catch ::
  "CircuitBreaker \<Rightarrow> error \<Rightarrow> int \<Rightarrow> error \<times> CircuitBreaker" where
  "CircuitBreaker_execute_catch cb err now =
     (case CircuitBreaker_onFailure cb err now of
        (None, cb') \<Rightarrow> (err, cb')
      | (Some thrown, cb') \<Rightarrow> (thrown, cb'))"

definition CircuitBreaker_reset :: "CircuitBreaker \<Rightarrow> int \<Rightarrow> CircuitBreaker" where
  "CircuitBreaker_reset cb now =
     (let cb1 = cb\<lparr>cb_failureCount := 0\<rparr>;
          cb2 = cb1\<lparr>cb_successCount := 0\<rparr>;
          cb3 = CircuitBreaker_setState cb2 CLOSED now
      in cb3\<lparr>cb_emitted := cb_emitted cb3 @ [ResetEvent]\<rparr>)"

text \<open>
  \<^verbatim>\<open>execute\<close> is asynchronous: it runs up to the \<^verbatim>\<open>await\<close> of the wrapped call in one
  synchronous piece, and its bookkeeping runs when the call has settled. Other calls on
  the same breaker may run between the two pieces, so they are two functions here.

  \<open>CircuitBreaker_execute_enter\<close> is the piece before the \<^verbatim>\<open>await\<close>; all its
  \<^verbatim>\<open>Date.now()\<close> reads return \<open>now\<close>. It either fails fast (the \<^verbatim>\<open>throw\<close> is caught by
  the \<^verbatim>\<open>catch\<close> block) or goes on to invoke the wrapped function.
\<close>

datatype entered = FastFailed error CircuitBreaker | Invoking CircuitBreaker

definition CircuitBreaker_execute_enter :: "CircuitBreaker \<Rightarrow> int \<Rightarrow> entered" where
  "CircuitBreaker_execute_enter cb now =
     (let cb1 = cb\<lparr>cb_totalRequests := cb_totalRequests cb + 1\<rparr>
      in if cb_state cb1 = OPEN then
           (if now < cb_nextAttempt cb1
            then (case CircuitBreaker_execute_catch cb1 CircuitOpenError now of
                    (thrown, cb2) \<Rightarrow> FastFailed thrown cb2)
            else Invoking (CircuitBreaker_setState cb1 HALF_OPEN now))
         else Invoking cb1)"

text \<open>
  The wrapped function, invoked at \<open>now\<close>, settles after \<open>d\<close> milliseconds; the timer set
  before the invocation fires after \<open>cb_timeout\<close>. The result is the instant and the way
  the promise of \<^verbatim>\<open>executeWithTimeout\<close> settles.
\<close>

definition CircuitBreaker_executeWithTimeout ::
  "CircuitBreaker \<Rightarrow> (int \<Rightarrow> int \<times> 'a settled) \<Rightarrow> int \<Rightarrow> int \<times> 'a completion" where
  "CircuitBreaker_executeWithTimeout cb fn now =
     (case fn now of (d, s) \<Rightarrow>
        if d < cb_timeout cb
        then (now + d, case s of Resolved v \<Rightarrow> Returned v | Rejected e \<Rightarrow> Threw e)
        else (now + cb_timeout cb, TimedOut))"

text \<open>
  \<open>CircuitBreaker_execute_settle\<close> is the piece after the \<^verbatim>\<open>await\<close>, run at \<open>now\<close> on the
  breaker as it is then: the timer callback (when it fired), then \<^verbatim>\<open>onSuccess\<close> or the
  \<^verbatim>\<open>catch\<close> block.
\<close>

definition CircuitBreaker_execute_settle ::
  "CircuitBreaker \<Rightarrow> 'a completion \<Rightarrow> int \<Rightarrow> (error + 'a) \<times> CircuitBreaker" where
  "CircuitBreaker_execute_settle cb c now =
     (case c of
        Returned v \<Rightarrow> (Inr v, CircuitBreaker_onSuccess cb now)
      | Threw e \<Rightarrow>
          (case CircuitBreaker_execute_catch cb e now of (thrown, cb') \<Rightarrow> (Inl thrown, cb'))
      | TimedOut \<Rightarrow>
          (case CircuitBreaker_execute_catch
                  (cb\<lparr>cb_totalTimeouts := cb_totalTimeouts cb + 1\<rparr>) CallTimeoutError now of
             (thrown, cb') \<Rightarrow> (Inl thrown, cb')))"

text \<open>
  One whole call with nothing else running on the breaker in between. \<open>ex_invoked\<close> tells
  whether the wrapped function was called, \<open>ex_finishedAt\<close> when the promise of
  \<^verbatim>\<open>execute\<close> settled.
\<close>

record 'a execution =
  ex_result :: "error + 'a"
  ex_breaker :: CircuitBreaker
  ex_invoked :: bool
  ex_finishedAt :: int

definition CircuitBreaker_execute ::
  "CircuitBreaker \<Rightarrow> (int \<Rightarrow> int \<times> 'a settled) \<Rightarrow> int \<Rightarrow> 'a execution" where
  "CircuitBreaker_execute cb fn now =
     (case CircuitBreaker_execute_enter cb now of
        FastFailed e cb' \<Rightarrow>
          \<lparr> ex_result = Inl e, ex_breaker = cb', ex_invoked = False, ex_finishedAt = now \<rparr>
      | Invoking cb1 \<Rightarrow>
          (case CircuitBreaker_executeWithTimeout cb1 fn now of (t, c) \<Rightarrow>
             (case CircuitBreaker_execute_settle cb1 c t of (r, cb2) \<Rightarrow>
                \<lparr> ex_result = r, ex_breaker = cb2, ex_invoked = True, ex_finishedAt = t \<rparr>)))"


subsection \<open>Breakers reached by calls that do not overlap\<close>

text \<open>
  \<open>serial\<close> holds of the breakers reached from the constructor by whole calls of
  \<^verbatim>\<open>execute\<close>, each settled before the next one starts, and by \<^verbatim>\<open>reset\<close>.
\<close>

inductive serial :: "CircuitBreaker \<Rightarrow> bool" where
  serial_new: "serial (CircuitBreaker_new failureThresholdOpt resetTimeoutOpt timeoutOpt now)"
| serial_execute: "serial cb \<Longrightarrow>
     serial (ex_breaker (CircuitBreaker_execute cb (fn :: int \<Rightarrow> int \<times> unit settled) now))"
| serial_reset: "serial cb \<Longrightarrow> serial (CircuitBreaker_reset cb now)"

subsection \<open>Test fixtures of the breaker\<close>

text \<open>
  The mocks of the breaker's test suite: a function that resolves, and one that
  rejects with \<^verbatim>\<open>new Error('Test error')\<close>, each \<open>d\<close> milliseconds after its call. The
  breaker is the one of the test's \<^verbatim>\<open>beforeEach\<close>. \<open>rejects_undefined_after\<close> is a function
  whose promise is rejected without a reason (\<^verbatim>\<open>() => Promise.reject()\<close>).
\<close>

definition resolves_after :: "int \<Rightarrow> int \<Rightarrow> int \<times> unit settled" where
  "resolves_after d t = (d, Resolved ())"

definition rejects_after :: "int \<Rightarrow> int \<Rightarrow> int \<times> unit settled" where
  "rejects_after d t = (d, Rejected (OperationError ''Test error''))"

definition rejects_undefined_after :: "int \<Rightarrow> int \<Rightarrow> int \<times> unit settled" where
  "rejects_undefined_after d t = (d, Rejected Nullish)"

definition test_breaker :: CircuitBreaker where
  "test_breaker = CircuitBreaker_new (Some 3) (Some 1000) (Some 500) 0"

definition failed_once :: CircuitBreaker where
  "failed_once = ex_breaker (CircuitBreaker_execute test_breaker (rejects_after 5) 0)"

definition failed_twice :: CircuitBreaker where
  "failed_twice = ex_breaker (CircuitBreaker_execute failed_once (rejects_after 5) 10)"

definition opened_breaker :: CircuitBreaker where
  "opened_breaker = ex_breaker (CircuitBreaker_execute failed_twice (rejects_after 5) 20)"

text \<open>A breaker with threshold 1 after one successful call.\<close>

definition closed_with_success :: CircuitBreaker where
  "closed_with_success =
     ex_breaker (CircuitBreaker_execute (CircuitBreaker_new (Some 1) (Some 1000) (Some 500) 0)
                   (resolves_after 5) 10)"

text \<open>
  Three calls that overlap on a breaker with threshold 2: all three enter at time 0
  while the breaker is CLOSED; two of them reject at times 1 and 2, which opens the
  circuit; the third resolves at time 3.
\<close>

fun breaker_of :: "entered \<Rightarrow> CircuitBreaker" where
  "breaker_of (FastFailed e cb) = cb"
| "breaker_of (Invoking cb) = cb"

definition three_entered :: CircuitBreaker where
  "three_entered =
     breaker_of (CircuitBreaker_execute_enter
       (breaker_of (CircuitBreaker_execute_enter
          (breaker_of (CircuitBreaker_execute_enter
             (CircuitBreaker_new (Some 2) (Some 1000) (Some 500) 0) 0)) 0)) 0)"

definition open_after_overlap :: CircuitBreaker where
  "open_after_overlap =
     snd (CircuitBreaker_execute_settle
       (snd (CircuitBreaker_execute_settle
          (snd (CircuitBreaker_execute_settle three_entered
                  (Threw (OperationError ''Test error'') :: unit completion) 1))
          (Threw (OperationError ''Test error'') :: unit completion) 2))
       (Returned ()) 3)"



section \<open>Bulkhead (src/patterns/Bulkhead.js)\<close>

datatype TaskStatus = PENDING | RUNNING | COMPLETED | TASK_FAILED | TIMEOUT | REJECTED

text \<open>
  A task object. \<^verbatim>\<open>fn\<close> and \<^verbatim>\<open>args\<close> are not stored: how the function settles is an input
  of the step that finishes the task. \<open>task_queueTimeoutId\<close> is the queue timer while it is
  pending, given by the instant it falls due (\<open>None\<close>: never set, or cleared by
  \<^verbatim>\<open>clearTimeout\<close>); \<open>task_timeoutId\<close> is in the same way the \<^verbatim>\<open>timeoutId\<close> of
  \<^verbatim>\<open>executeWithTimeout\<close>, the execution timer of the task.
\<close>

record task =
  task_id :: nat
  task_status :: TaskStatus
  task_createdAt :: int
  task_startedAt :: "int option"
  task_completedAt :: "int option"
  task_executionTime :: int
  task_queueTime :: int
  task_queueTimeoutId :: "int option"
  task_timeoutId :: "int option"

text \<open>
  The fields of a bulkhead, \<^verbatim>\<open>this.metrics\<close> kept flat. \<^verbatim>\<open>runningTasks\<close> is a JavaScript
  \<^verbatim>\<open>Map\<close>, here the list of its entries in insertion order. \<open>bh_nextTaskId\<close> stands for
  \<^verbatim>\<open>generateTaskId\<close> (time stamp and random suffix, meant to be unique): identifiers are
  handed out in sequence. Left out: \<^verbatim>\<open>totalFailed\<close> and \<^verbatim>\<open>totalTimeout\<close> (told apart by
  the text of the error message), the floating-point averages, the emitted events and
  the logger calls; no decision of the bulkhead reads them.
\<close>

record Bulkhead =
  bh_maxConcurrent :: int
  bh_maxQueueSize :: int
  bh_timeout :: int
  bh_queueTimeout :: int
  bh_runningTasks :: "(nat \<times> task) list"
  bh_taskQueue :: "task list"
  bh_currentConcurrency :: int
  bh_totalSubmitted :: nat
  bh_totalCompleted :: nat
  bh_totalRejected :: nat
  bh_peakConcurrency :: int
  bh_peakQueueSize :: int
  bh_currentQueueSize :: int
  bh_metricsCurrentConcurrency :: int
  bh_nextTaskId :: nat

definition Bulkhead_new ::
  "int option \<Rightarrow> int option \<Rightarrow> int option \<Rightarrow> int option \<Rightarrow> Bulkhead" where
  "Bulkhead_new maxConcurrentOpt maxQueueSizeOpt timeoutOpt queueTimeoutOpt =
     \<lparr> bh_maxConcurrent = or_default_int maxConcurrentOpt 10,
       bh_maxQueueSize = or_default_int maxQueueSizeOpt 100,
       bh_timeout = or_default_int timeoutOpt 30000,
       bh_queueTimeout = or_default_int queueTimeoutOpt 60000,
       bh_runningTasks = [],
       bh_taskQueue = [],
       bh_currentConcurrency = 0,
       bh_totalSubmitted = 0,
       bh_totalCompleted = 0,
       bh_totalRejected = 0,
       bh_peakConcurrency = 0,
       bh_peakQueueSize = 0,
       bh_currentQueueSize = 0,
       bh_metricsCurrentConcurrency = 0,
       bh_nextTaskId = 0 \<rparr>"

text \<open>\<^verbatim>\<open>Map.set\<close>: a key that is present keeps its place, a new key goes to the end.\<close>

fun Map_set :: "('k \<times> 'v) list \<Rightarrow> 'k \<Rightarrow> 'v \<Rightarrow> ('k \<times> 'v) list" where
  "Map_set [] k v = [(k, v)]"
| "Map_set (p # m) k v = (if fst p = k then (k, v) # m else p # Map_set m k v)"

definition Map_delete :: "('k \<times> 'v) list \<Rightarrow> 'k \<Rightarrow> ('k \<times> 'v) list" where
  "Map_delete m k = filter (\<lambda>p. fst p \<noteq> k) m"

definition Bulkhead_createTask :: "Bulkhead \<Rightarrow> int \<Rightarrow> task \<times> Bulkhead" where
  "Bulkhead_createTask bh now =
     (\<lparr> task_id = bh_nextTaskId bh,
        task_status = PENDING,
        task_createdAt = now,
        task_startedAt = None,
        task_completedAt = None,
        task_executionTime = 0,
        task_queueTime = 0,
        task_queueTimeoutId = None,
        task_timeoutId = None \<rparr>,
      bh\<lparr>bh_nextTaskId := bh_nextTaskId bh + 1\<rparr>)"

text \<open>
  \<^verbatim>\<open>executeTask\<close> up to its \<^verbatim>\<open>await\<close>: the bookkeeping, then \<^verbatim>\<open>executeWithTimeout\<close>, which
  sets the execution timer and invokes the function. The map holds a reference to the
  task object, so the entry shows the timer as well.
\<close>

definition Bulkhead_executeTask_start :: "Bulkhead \<Rightarrow> task \<Rightarrow> int \<Rightarrow> task \<times> Bulkhead" where
  "Bulkhead_executeTask_start bh task now =
     (let bh1 = bh\<lparr>bh_currentConcurrency := bh_currentConcurrency bh + 1\<rparr>;
          bh2 = bh1\<lparr>bh_metricsCurrentConcurrency := bh_currentConcurrency bh1\<rparr>;
          bh3 = bh2\<lparr>bh_peakConcurrency := max (bh_peakConcurrency bh2) (bh_currentConcurrency bh2)\<rparr>;
          t1 = task\<lparr>task_status := RUNNING\<rparr>;
          t2 = t1\<lparr>task_startedAt := Some now\<rparr>;
          t3 = t2\<lparr>task_queueTime := now - task_createdAt t2\<rparr>;
          t4 = t3\<lparr>task_timeoutId := Some (now + bh_timeout bh3)\<rparr>
      in (t4, bh3\<lparr>bh_runningTasks := Map_set (bh_runningTasks bh3) (task_id t4) t4\<rparr>))"

text \<open>
  \<^verbatim>\<open>processQueue\<close> up to its \<^verbatim>\<open>await\<close>: nothing when the queue is empty or no slot is free;
  otherwise the head of the queue is shifted out, its queue timer cleared, and it is
  started.
\<close>

definition Bulkhead_processQueue :: "Bulkhead \<Rightarrow> int \<Rightarrow> Bulkhead" where
  "Bulkhead_processQueue bh now =
     (case bh_taskQueue bh of
        [] \<Rightarrow> bh
      | task # rest \<Rightarrow>
          if bh_currentConcurrency bh \<ge> bh_maxConcurrent bh then bh
          else
            (let bh1 = bh\<lparr>bh_taskQueue := rest\<rparr>;
                 bh2 = bh1\<lparr>bh_currentQueueSize := int (length (bh_taskQueue bh1))\<rparr>;
                 t1 = task\<lparr>task_queueTimeoutId := None\<rparr>
             in snd (Bulkhead_executeTask_start bh2 t1 now)))"

definition Bulkhead_handleTaskSuccess :: "Bulkhead \<Rightarrow> task \<Rightarrow> int \<Rightarrow> task \<times> Bulkhead" where
  "Bulkhead_handleTaskSuccess bh task now =
     (let t1 = task\<lparr>task_status := COMPLETED\<rparr>;
          t2 = t1\<lparr>task_completedAt := Some now\<rparr>;
          t3 = t2\<lparr>task_executionTime := now - (case task_startedAt t2 of Some s \<Rightarrow> s | None \<Rightarrow> 0)\<rparr>
      in (t3, bh\<lparr>bh_totalCompleted := bh_totalCompleted bh + 1\<rparr>))"

definition Bulkhead_handleTaskFailure :: "task \<Rightarrow> int \<Rightarrow> task" where
  "Bulkhead_handleTaskFailure task now =
     (let t1 = task\<lparr>task_status := TASK_FAILED\<rparr>;
          t2 = t1\<lparr>task_completedAt := Some now\<rparr>
      in t2\<lparr>task_executionTime :=
              (case task_startedAt t2 of Some s \<Rightarrow> if s = 0 then 0 else now - s | None \<Rightarrow> 0)\<rparr>)"

text \<open>
  The rest of \<^verbatim>\<open>executeTask\<close> for a running task, at the instant \<open>now\<close> when the promise
  of \<^verbatim>\<open>executeWithTimeout\<close> has settled as \<open>c\<close> (for \<open>TimedOut\<close> the timer callback has
  set the status first): the success or failure handler, then the \<^verbatim>\<open>finally\<close> block,
  which frees the slot and calls \<^verbatim>\<open>processQueue\<close>. The result is what \<^verbatim>\<open>executeTask\<close>
  returns or throws, the task object as it is left, and the bulkhead. After it has
  written the task object, \<^verbatim>\<open>handleTaskFailure\<close> reads \<^verbatim>\<open>error.message\<close>; for a rejection
  reason that is \<^verbatim>\<open>undefined\<close> or \<^verbatim>\<open>null\<close> this raises a type error, which is then what
  \<^verbatim>\<open>executeTask\<close> throws once the \<^verbatim>\<open>finally\<close> block has run. The \<^verbatim>\<open>catch\<close> of
  \<^verbatim>\<open>execute\<close> that runs after a failure calls \<^verbatim>\<open>handleTaskFailure\<close> once more; it writes
  to the task object and to the metrics left out here only.
\<close>

definition Bulkhead_executeTask_finish ::
  "Bulkhead \<Rightarrow> task \<Rightarrow> 'a completion \<Rightarrow> int \<Rightarrow> (error + 'a) \<times> task \<times> Bulkhead" where
  "Bulkhead_executeTask_finish bh task c now =
     (let (r, t1, bh1) =
            (case c of
               Returned v \<Rightarrow>
                 (case Bulkhead_handleTaskSuccess bh task now of (t, b) \<Rightarrow> (Inr v, t, b))
             | Threw e \<Rightarrow>
                 (Inl (if e = Nullish then TypeError else e),
                  Bulkhead_handleTaskFailure task now, bh)
             | TimedOut \<Rightarrow>
                 (Inl ExecutionTimeoutError,
                  Bulkhead_handleTaskFailure (task\<lparr>task_status := TIMEOUT\<rparr>) now, bh));
          bh2 = bh1\<lparr>bh_runningTasks := Map_delete (bh_runningTasks bh1) (task_id t1)\<rparr>;
          bh3 = bh2\<lparr>bh_currentConcurrency := bh_currentConcurrency bh2 - 1\<rparr>;
          bh4 = bh3\<lparr>bh_metricsCurrentConcurrency := bh_currentConcurrency bh3\<rparr>
      in (r, t1, Bulkhead_processQueue bh4 now))"

text \<open>
  \<^verbatim>\<open>queueTask\<close>: the rejection when the queue is full, otherwise the body of the promise
  executor, which sets the queue timer and pushes the task.
\<close>

datatype admission = Started task | Queued task | RejectedFull error task

definition Bulkhead_queueTask :: "Bulkhead \<Rightarrow> task \<Rightarrow> int \<Rightarrow> admission \<times> Bulkhead" where
  "Bulkhead_queueTask bh task now =
     (if int (length (bh_taskQueue bh)) \<ge> bh_maxQueueSize bh
      then (RejectedFull QueueFullError (task\<lparr>task_status := REJECTED\<rparr>),
            bh\<lparr>bh_totalRejected := bh_totalRejected bh + 1\<rparr>)
      else
        (let t1 = task\<lparr>task_queueTimeoutId := Some (now + bh_queueTimeout bh)\<rparr>;
             bh1 = bh\<lparr>bh_taskQueue := bh_taskQueue bh @ [t1]\<rparr>;
             bh2 = bh1\<lparr>bh_currentQueueSize := int (length (bh_taskQueue bh1))\<rparr>;
             bh3 = bh2\<lparr>bh_peakQueueSize :=
                         max (bh_peakQueueSize bh2) (int (length (bh_taskQueue bh2)))\<rparr>
         in (Queued t1, bh3)))"

text \<open>
  \<^verbatim>\<open>execute\<close> up to its first \<^verbatim>\<open>await\<close>: the task is started, queued, or rejected; a
  rejection is caught by the \<^verbatim>\<open>catch\<close> of \<^verbatim>\<open>execute\<close>, which runs \<^verbatim>\<open>handleTaskFailure\<close> and
  rethrows.
\<close>

definition Bulkhead_execute :: "Bulkhead \<Rightarrow> int \<Rightarrow> admission \<times> Bulkhead" where
  "Bulkhead_execute bh now =
     (case Bulkhead_createTask bh now of (task, bh0) \<Rightarrow>
        (let bh1 = bh0\<lparr>bh_totalSubmitted := bh_totalSubmitted bh0 + 1\<rparr>
         in if bh_currentConcurrency bh1 < bh_maxConcurrent bh1
            then (case Bulkhead_executeTask_start bh1 task now of (t, b) \<Rightarrow> (Started t, b))
            else (case Bulkhead_queueTask bh1 task now of
                    (RejectedFull e t, b) \<Rightarrow> (RejectedFull e (Bulkhead_handleTaskFailure t now), b)
                  | (a, b) \<Rightarrow> (a, b))))"

text \<open>\<^verbatim>\<open>findIndex\<close> by identifier followed by \<^verbatim>\<open>splice(index, 1)\<close>.\<close>

fun splice_first :: "nat \<Rightarrow> task list \<Rightarrow> task list" where
  "splice_first i [] = []"
| "splice_first i (t # ts) = (if task_id t = i then ts else t # splice_first i ts)"

definition Bulkhead_removeFromQueue :: "Bulkhead \<Rightarrow> task \<Rightarrow> Bulkhead" where
  "Bulkhead_removeFromQueue bh task =
     (if task_id task \<in> task_id ` set (bh_taskQueue bh)
      then (let bh1 = bh\<lparr>bh_taskQueue := splice_first (task_id task) (bh_taskQueue bh)\<rparr>
            in bh1\<lparr>bh_currentQueueSize := int (length (bh_taskQueue bh1))\<rparr>)
      else bh)"

text \<open>The callback of the queue timer of a task.\<close>

definition Bulkhead_queueTimeout_fires :: "Bulkhead \<Rightarrow> task \<Rightarrow> error \<times> task \<times> Bulkhead" where
  "Bulkhead_queueTimeout_fires bh task =
     (QueueTimeoutError, task\<lparr>task_status := TIMEOUT\<rparr>, Bulkhead_removeFromQueue bh task)"

definition Bulkhead_clearQueue :: "Bulkhead \<Rightarrow> Bulkhead" where
  "Bulkhead_clearQueue bh =
     (let bh1 = bh\<lparr>bh_taskQueue := []\<rparr> in bh1\<lparr>bh_currentQueueSize := 0\<rparr>)"

text \<open>
  The bulkheads that can arise: a constructor call whose limits are not negative (the
  configuration domain is \<^verbatim>\<open>maxConcurrent\<close> \<open>\<ge> 1\<close>, \<^verbatim>\<open>maxQueueSize\<close> \<open>\<ge> 0\<close>), followed by
  any sequence of submissions, of running tasks finishing (in any way, at any time), of
  queue timers firing and of \<^verbatim>\<open>clearQueue\<close> calls.
\<close>

inductive Bulkhead_reachable :: "Bulkhead \<Rightarrow> bool" where
  reach_new:
    "bh = Bulkhead_new maxConcurrentOpt maxQueueSizeOpt timeoutOpt queueTimeoutOpt \<Longrightarrow>
     0 \<le> bh_maxConcurrent bh \<Longrightarrow> 0 \<le> bh_maxQueueSize bh \<Longrightarrow> Bulkhead_reachable bh"
| reach_execute:
    "Bulkhead_reachable bh \<Longrightarrow> Bulkhead_reachable (snd (Bulkhead_execute bh now))"
| reach_finish:
    "Bulkhead_reachable bh \<Longrightarrow> (task_id task, task) \<in> set (bh_runningTasks bh) \<Longrightarrow>
     Bulkhead_reachable (snd (snd (Bulkhead_executeTask_finish bh task (c :: unit completion) now)))"
| reach_queueTimeout:
    "Bulkhead_reachable bh \<Longrightarrow> task \<in> set (bh_taskQueue bh) \<Longrightarrow>
     Bulkhead_reachable (snd (snd (Bulkhead_queueTimeout_fires bh task)))"
| reach_clearQueue:
    "Bulkhead_reachable bh \<Longrightarrow> Bulkhead_reachable (Bulkhead_clearQueue bh)"

text \<open>
  What holds of every bulkhead that can arise: the limits are respected, every queued
  task is PENDING with its queue timer pending and no execution timer, and every
  running task is RUNNING with its queue timer gone and its execution timer set at the
  instant it started.
\<close>

definition Bulkhead_inv :: "Bulkhead \<Rightarrow> bool" where
  "Bulkhead_inv bh \<longleftrightarrow>
     0 \<le> bh_maxConcurrent bh \<and> 0 \<le> bh_maxQueueSize bh
   \<and> int (length (bh_runningTasks bh)) \<le> bh_currentConcurrency bh
   \<and> bh_currentConcurrency bh \<le> bh_maxConcurrent bh
   \<and> int (length (bh_taskQueue bh)) \<le> bh_maxQueueSize bh
   \<and> (\<forall>t \<in> set (bh_taskQueue bh).
         task_status t = PENDING \<and> task_startedAt t = None \<and> task_timeoutId t = None
       \<and> task_queueTimeoutId t = Some (task_createdAt t + bh_queueTimeout bh))
   \<and> (\<forall>p \<in> set (bh_runningTasks bh).
         fst p = task_id (snd p) \<and> task_status (snd p) = RUNNING
       \<and> task_queueTimeoutId (snd p) = None
       \<and> (\<exists>s. task_startedAt (snd p) = Some s \<and> task_timeoutId (snd p) = Some (s + bh_timeout bh)))"

subsection \<open>Test fixtures of the bulkhead\<close>

text \<open>
  A bulkhead with one slot and a queue of one, and the bulkheads after one, two and
  three submissions at times 0, 10 and 20.
\<close>

definition small_bulkhead :: Bulkhead where
  "small_bulkhead = Bulkhead_new (Some 1) (Some 1) (Some 1000) (Some 2000)"

definition one_running :: Bulkhead where
  "one_running = snd (Bulkhead_execute small_bulkhead 0)"

definition one_running_one_queued :: Bulkhead where
  "one_running_one_queued = snd (Bulkhead_execute one_running 10)"

section \<open>AutoRecovery (src/patterns/AutoRecovery.js)\<close>

datatype RecoveryStates = HEALTHY | DEGRADED | RECOVERING | FAILED

text \<open>
  The entries of the strategy registry. The first three are the defaults registered by
  the constructor under the names RETRY, RESTART and DEGRADE; \<open>CustomStrategy f\<close> is a
  strategy registered by the caller whose \<^verbatim>\<open>execute\<close> settles as \<open>f error\<close> and leaves the
  recovery object alone.
\<close>

datatype strategy =
    RetryStrategy
  | RestartStrategy
  | DegradeStrategy
  | CustomStrategy "error \<Rightarrow> unit settled"

text \<open>
  The fields of a recovery object, \<^verbatim>\<open>this.metrics\<close> kept flat. Delays and the multiplier
  are JavaScript numbers, here the real numbers that the (finite) doubles stand for. \<open>ar_stateHistory\<close> keeps the state and the two
  counters of each entry. \<^verbatim>\<open>strategies\<close> is a \<^verbatim>\<open>Map\<close>, here the list of its entries in
  insertion order. Left out: \<^verbatim>\<open>averageRecoveryTime\<close> (a floating-point average nothing
  reads), the emitted events and the logger calls.
\<close>

record AutoRecovery =
  ar_maxRetries :: nat
  ar_initialDelay :: real
  ar_maxDelay :: real
  ar_backoffMultiplier :: real
  ar_healthCheckInterval :: int
  ar_failureThreshold :: nat
  ar_recoveryThreshold :: nat
  ar_onRecover :: "(error \<Rightarrow> unit settled) option"
  ar_state :: RecoveryStates
  ar_failureCount :: nat
  ar_successCount :: nat
  ar_retryCount :: nat
  ar_lastHealthCheck :: "(int \<times> bool) option"
  ar_isRecovering :: bool
  ar_totalFailures :: nat
  ar_totalRecoveries :: nat
  ar_totalRetries :: nat
  ar_longestOutage :: int
  ar_currentOutageStart :: "int option"
  ar_healthCheckSuccesses :: nat
  ar_healthCheckFailures :: nat
  ar_stateHistory :: "(RecoveryStates \<times> nat \<times> nat) list"
  ar_strategies :: "(string \<times> strategy) list"

definition or_default_real :: "real option \<Rightarrow> real \<Rightarrow> real" where
  "or_default_real x d = (case x of None \<Rightarrow> d | Some v \<Rightarrow> if v = 0 then d else v)"

definition AutoRecovery_registerStrategy ::
  "AutoRecovery \<Rightarrow> string \<Rightarrow> strategy \<Rightarrow> AutoRecovery" where
  "AutoRecovery_registerStrategy ar name s =
     ar\<lparr>ar_strategies := Map_set (ar_strategies ar) name s\<rparr>"

definition AutoRecovery_registerDefaultStrategies :: "AutoRecovery \<Rightarrow> AutoRecovery" where
  "AutoRecovery_registerDefaultStrategies ar =
     AutoRecovery_registerStrategy
       (AutoRecovery_registerStrategy
          (AutoRecovery_registerStrategy ar ''RETRY'' RetryStrategy)
          ''RESTART'' RestartStrategy)
       ''DEGRADE'' DegradeStrategy"

definition AutoRecovery_new ::
  "nat option \<Rightarrow> real option \<Rightarrow> real option \<Rightarrow> real option \<Rightarrow> int option \<Rightarrow>
   nat option \<Rightarrow> nat option \<Rightarrow> (error \<Rightarrow> unit settled) option \<Rightarrow> AutoRecovery" where
  "AutoRecovery_new maxRetriesOpt initialDelayOpt maxDelayOpt backoffMultiplierOpt
     healthCheckIntervalOpt failureThresholdOpt recoveryThresholdOpt onRecoverOpt =
     AutoRecovery_registerDefaultStrategies
       \<lparr> ar_maxRetries = or_default_nat maxRetriesOpt 3,
         ar_initialDelay = or_default_real initialDelayOpt 1000,
         ar_maxDelay = or_default_real maxDelayOpt 30000,
         ar_backoffMultiplier = or_default_real backoffMultiplierOpt 2,
         ar_healthCheckInterval = or_default_int healthCheckIntervalOpt 5000,
         ar_failureThreshold = or_default_nat failureThresholdOpt 3,
         ar_recoveryThreshold = or_default_nat recoveryThresholdOpt 2,
         ar_onRecover = onRecoverOpt,
         ar_state = HEALTHY,
         ar_failureCount = 0,
         ar_successCount = 0,
         ar_retryCount = 0,
         ar_lastHealthCheck = None,
         ar_isRecovering = False,
         ar_totalFailures = 0,
         ar_totalRecoveries = 0,
         ar_totalRetries = 0,
         ar_longestOutage = 0,
         ar_currentOutageStart = None,
         ar_healthCheckSuccesses = 0,
         ar_healthCheckFailures = 0,
         ar_stateHistory = [],
         ar_strategies = [] \<rparr>"

text \<open>
  \<^verbatim>\<open>calculateDelay\<close> computes in double precision. The rounding operations of the
  JavaScript engine are not part of the repository, so they are a parameter of the
  model: the product, the sum, \<^verbatim>\<open>Math.pow\<close> with an integer exponent, and the literal
  \<^verbatim>\<open>0.1\<close>, each on the real numbers that the doubles stand for. \<^verbatim>\<open>Math.min\<close> and
  \<^verbatim>\<open>Math.floor\<close> do not round. The model covers the runs in which every value that
  arises is a finite number: neither an infinity nor \<^verbatim>\<open>NaN\<close> is a real number.
\<close>

record arithmetic =
  fl_mul :: "real \<Rightarrow> real \<Rightarrow> real"
  fl_add :: "real \<Rightarrow> real \<Rightarrow> real"
  fl_pow :: "real \<Rightarrow> int \<Rightarrow> real"
  fl_tenth :: real

text \<open>
  What the bound on the waits needs of the arithmetic, and rounding to nearest gives:
  a product of two numbers that are not negative is not negative, neither is a power of
  such a number, nor the literal; and adding a number that is not negative does not
  give less.
\<close>

definition rounding_keeps_order :: "arithmetic \<Rightarrow> bool" where
  "rounding_keeps_order ops \<longleftrightarrow>
     (\<forall>x y. 0 \<le> x \<longrightarrow> 0 \<le> y \<longrightarrow> 0 \<le> fl_mul ops x y)
   \<and> (\<forall>x n. 0 \<le> x \<longrightarrow> 0 \<le> fl_pow ops x n)
   \<and> (\<forall>x y. 0 \<le> y \<longrightarrow> x \<le> fl_add ops x y)
   \<and> 0 \<le> fl_tenth ops"

text \<open>
  \<^verbatim>\<open>calculateDelay\<close>; \<open>random\<close> is the value \<^verbatim>\<open>Math.random()\<close> returns, in \<open>[0, 1)\<close>.
\<close>

definition AutoRecovery_calculateDelay ::
  "arithmetic \<Rightarrow> AutoRecovery \<Rightarrow> nat \<Rightarrow> real \<Rightarrow> int" where
  "AutoRecovery_calculateDelay ops ar attempt random =
     (let delay = min (fl_mul ops (ar_initialDelay ar)
                         (fl_pow ops (ar_backoffMultiplier ar) (int attempt - 1)))
                      (ar_maxDelay ar);
          jitter = fl_mul ops (fl_mul ops delay (fl_tenth ops)) random
      in \<lfloor>fl_add ops delay jitter\<rfloor>)"

definition AutoRecovery_setState :: "AutoRecovery \<Rightarrow> RecoveryStates \<Rightarrow> AutoRecovery" where
  "AutoRecovery_setState ar newState =
     (let ar1 = ar\<lparr>ar_state := newState\<rparr>
      in ar1\<lparr>ar_stateHistory :=
               keep_last_100 (ar_stateHistory ar1 @
                 [(newState, ar_failureCount ar1, ar_successCount ar1)])\<rparr>)"

text \<open>The tests \<^verbatim>\<open>!currentOutageStart\<close> and \<^verbatim>\<open>currentOutageStart\<close> take 0 like \<^verbatim>\<open>null\<close>.\<close>

definition AutoRecovery_startOutage :: "AutoRecovery \<Rightarrow> int \<Rightarrow> AutoRecovery" where
  "AutoRecovery_startOutage ar now =
     (case ar_currentOutageStart ar of
        None \<Rightarrow> ar\<lparr>ar_currentOutageStart := Some now\<rparr>
      | Some s \<Rightarrow> if s = 0 then ar\<lparr>ar_currentOutageStart := Some now\<rparr> else ar)"

definition AutoRecovery_endOutage :: "AutoRecovery \<Rightarrow> int \<Rightarrow> AutoRecovery" where
  "AutoRecovery_endOutage ar now =
     (case ar_currentOutageStart ar of
        None \<Rightarrow> ar
      | Some s \<Rightarrow>
          if s = 0 then ar
          else (let ar1 = ar\<lparr>ar_longestOutage := max (ar_longestOutage ar) (now - s)\<rparr>
                in ar1\<lparr>ar_currentOutageStart := None\<rparr>))"

definition AutoRecovery_onSuccess :: "AutoRecovery \<Rightarrow> int \<Rightarrow> AutoRecovery" where
  "AutoRecovery_onSuccess ar now =
     (let ar1 = ar\<lparr>ar_successCount := ar_successCount ar + 1\<rparr>;
          ar2 = ar1\<lparr>ar_failureCount := 0\<rparr>;
          ar3 = ar2\<lparr>ar_retryCount := 0\<rparr>
      in if ar_state ar3 \<noteq> HEALTHY \<and> ar_successCount ar3 \<ge> ar_recoveryThreshold ar3
         then AutoRecovery_endOutage (AutoRecovery_setState ar3 HEALTHY) now
         else ar3)"

definition AutoRecovery_handleRecoverySuccess :: "AutoRecovery \<Rightarrow> nat \<Rightarrow> int \<Rightarrow> AutoRecovery" where
  "AutoRecovery_handleRecoverySuccess ar attempts now =
     ar\<lparr>ar_totalRecoveries := ar_totalRecoveries ar + 1\<rparr>"

text \<open>
  \<^verbatim>\<open>attemptRecovery\<close> is asynchronous. \<open>AutoRecovery_attemptRecovery_begin\<close> is its piece
  before the loop: \<open>None\<close> when a pass is in flight already (the early \<^verbatim>\<open>return\<close>),
  otherwise the recovery with the guard set and the state RECOVERING.
\<close>

definition AutoRecovery_attemptRecovery_begin :: "AutoRecovery \<Rightarrow> AutoRecovery option" where
  "AutoRecovery_attemptRecovery_begin ar =
     (if ar_isRecovering ar then None
      else Some (AutoRecovery_setState (ar\<lparr>ar_isRecovering := True\<rparr>) RECOVERING))"

text \<open>
  \<^verbatim>\<open>strategy.execute(error, this)\<close>: how its promise settles, and the recovery after it.
  RETRY waits 1000 ms and resolves; RESTART awaits \<^verbatim>\<open>onRecover(error)\<close> when there is one;
  DEGRADE sets the state and then reads \<^verbatim>\<open>error.message\<close> for its event, which raises a
  type error when the error is \<^verbatim>\<open>undefined\<close> or \<^verbatim>\<open>null\<close>.
\<close>

fun AutoRecovery_strategy_execute ::
  "strategy \<Rightarrow> error \<Rightarrow> AutoRecovery \<Rightarrow> unit settled \<times> AutoRecovery" where
  "AutoRecovery_strategy_execute RetryStrategy e ar = (Resolved (), ar)"
| "AutoRecovery_strategy_execute RestartStrategy e ar =
     (case ar_onRecover ar of None \<Rightarrow> (Resolved (), ar) | Some f \<Rightarrow> (f e, ar))"
| "AutoRecovery_strategy_execute DegradeStrategy e ar =
     (if e = Nullish then Rejected TypeError else Resolved (),
      AutoRecovery_setState ar DEGRADED)"
| "AutoRecovery_strategy_execute (CustomStrategy f) e ar = (f e, ar)"

text \<open>
  The \<^verbatim>\<open>for\<close> loop over the registry: the names of the strategies invoked, in order, the
  recovery afterwards, and what the loop throws, if anything. A strategy that resolves
  ends the loop (\<^verbatim>\<open>break\<close>); one that rejects is caught and the loop goes on, unless the
  rejection reason is \<^verbatim>\<open>undefined\<close> or \<^verbatim>\<open>null\<close>: then \<^verbatim>\<open>strategyError.message\<close> in the
  \<^verbatim>\<open>catch\<close> block raises a type error, which leaves the loop.
\<close>

record recovery_pass =
  pass_invoked :: "string list"
  pass_recovery :: AutoRecovery
  pass_thrown :: "error option"

fun AutoRecovery_runStrategies ::
  "(string \<times> strategy) list \<Rightarrow> error \<Rightarrow> AutoRecovery \<Rightarrow> recovery_pass" where
  "AutoRecovery_runStrategies [] e ar =
     \<lparr> pass_invoked = [], pass_recovery = ar, pass_thrown = None \<rparr>"
| "AutoRecovery_runStrategies (p # rest) e ar =
     (case AutoRecovery_strategy_execute (snd p) e ar of
        (Resolved u, ar1) \<Rightarrow>
          \<lparr> pass_invoked = [fst p], pass_recovery = ar1, pass_thrown = None \<rparr>
      | (Rejected strategyError, ar1) \<Rightarrow>
          if strategyError = Nullish
          then \<lparr> pass_invoked = [fst p], pass_recovery = ar1, pass_thrown = Some TypeError \<rparr>
          else (let r = AutoRecovery_runStrategies rest e ar1
                in r\<lparr>pass_invoked := fst p # pass_invoked r\<rparr>))"

text \<open>The \<^verbatim>\<open>try\<close> block with its \<^verbatim>\<open>finally\<close>, on a recovery whose pass has begun.\<close>

definition AutoRecovery_attemptRecovery_rest :: "AutoRecovery \<Rightarrow> error \<Rightarrow> recovery_pass" where
  "AutoRecovery_attemptRecovery_rest ar e =
     (let r = AutoRecovery_runStrategies (ar_strategies ar) e ar
      in r\<lparr>pass_recovery := (pass_recovery r)\<lparr>ar_isRecovering := False\<rparr>\<rparr>)"

text \<open>A whole pass, awaited to its end as \<^verbatim>\<open>triggerRecovery\<close> does.\<close>

definition AutoRecovery_attemptRecovery :: "AutoRecovery \<Rightarrow> error \<Rightarrow> recovery_pass" where
  "AutoRecovery_attemptRecovery ar e =
     (case AutoRecovery_attemptRecovery_begin ar of
        None \<Rightarrow> \<lparr> pass_invoked = [], pass_recovery = ar, pass_thrown = None \<rparr>
      | Some ar1 \<Rightarrow> AutoRecovery_attemptRecovery_rest ar1 e)"

text \<open>
  \<^verbatim>\<open>handleFailure\<close>, first its statements up to the \<^verbatim>\<open>emit\<close>: the counters and the state.
\<close>

definition AutoRecovery_handleFailure_count :: "AutoRecovery \<Rightarrow> int \<Rightarrow> AutoRecovery" where
  "AutoRecovery_handleFailure_count ar now =
     (let ar1 = ar\<lparr>ar_failureCount := ar_failureCount ar + 1\<rparr>;
          ar2 = ar1\<lparr>ar_successCount := 0\<rparr>;
          ar3 = ar2\<lparr>ar_totalFailures := ar_totalFailures ar2 + 1\<rparr>
      in if ar_failureCount ar3 \<ge> ar_failureThreshold ar3
         then AutoRecovery_startOutage (AutoRecovery_setState ar3 FAILED) now
         else if ar_state ar3 = HEALTHY then AutoRecovery_setState ar3 DEGRADED
         else ar3)"

text \<open>
  Then the \<^verbatim>\<open>emit\<close> reads \<^verbatim>\<open>error.message\<close>, which raises a type error when the error is
  \<^verbatim>\<open>undefined\<close> or \<^verbatim>\<open>null\<close>. Otherwise \<^verbatim>\<open>handleFailure\<close> calls \<^verbatim>\<open>attemptRecovery\<close> without
  awaiting it, so it returns when the pass has begun; the rest of the pass runs later.
  The result is the recovery, whether a pass was begun by this call, and what
  \<^verbatim>\<open>handleFailure\<close> throws, if anything.
\<close>

definition AutoRecovery_handleFailure ::
  "AutoRecovery \<Rightarrow> error \<Rightarrow> int \<Rightarrow> AutoRecovery \<times> bool \<times> error option" where
  "AutoRecovery_handleFailure ar e now =
     (let ar4 = AutoRecovery_handleFailure_count ar now
      in if e = Nullish then (ar4, False, Some TypeError)
         else (case AutoRecovery_attemptRecovery_begin ar4 of
                 None \<Rightarrow> (ar4, False, None)
               | Some ar5 \<Rightarrow> (ar5, True, None)))"

text \<open>
  One call of \<^verbatim>\<open>executeWithRecovery\<close>. \<open>fn i\<close> is how the \<open>i\<close>-th invocation of the
  function settles (counted from 0), \<open>random a\<close> the value of \<^verbatim>\<open>Math.random()\<close> drawn
  for attempt \<open>a\<close>, \<open>now\<close> the instant at which the call settles (the only reads of the
  clock are in the bookkeeping at the end). The result records the number of
  invocations and the arguments of \<^verbatim>\<open>this.delay\<close> in order. \<open>lastError\<close> starts as
  \<^verbatim>\<open>undefined\<close>. The \<^verbatim>\<open>catch\<close> block reads \<^verbatim>\<open>error.message\<close> for its log line after it has
  counted the attempt; for a rejection reason that is \<^verbatim>\<open>undefined\<close> or \<^verbatim>\<open>null\<close> this
  raises a type error, which ends the call without a retry and without
  \<^verbatim>\<open>handleFailure\<close>.
\<close>

record 'a recovery_run =
  run_result :: "error + 'a"
  run_recovery :: AutoRecovery
  run_passBegun :: bool
  run_calls :: nat
  run_delays :: "int list"

function AutoRecovery_retryLoop ::
  "arithmetic \<Rightarrow> AutoRecovery \<Rightarrow> (nat \<Rightarrow> 'a settled) \<Rightarrow> (nat \<Rightarrow> real) \<Rightarrow> int \<Rightarrow>
   nat \<Rightarrow> error \<Rightarrow> nat \<Rightarrow> int list \<Rightarrow> 'a recovery_run" where
  "AutoRecovery_retryLoop ops ar fn random now attempt lastError calls delays =
     (if attempt \<le> ar_maxRetries ar then
        (case fn calls of
           Resolved result \<Rightarrow>
             (let ar1 = (if attempt > 0 then AutoRecovery_handleRecoverySuccess ar attempt now
                         else ar)
              in \<lparr> run_result = Inr result,
                   run_recovery = AutoRecovery_onSuccess ar1 now,
                   run_passBegun = False,
                   run_calls = calls + 1,
                   run_delays = delays \<rparr>)
         | Rejected error \<Rightarrow>
             (let ar1 = ar\<lparr>ar_totalRetries := ar_totalRetries ar + 1\<rparr>
              in if error = Nullish
                 then \<lparr> run_result = Inl TypeError, run_recovery = ar1, run_passBegun = False,
                        run_calls = calls + 1, run_delays = delays \<rparr>
                 else if attempt + 1 \<le> ar_maxRetries ar1
                 then AutoRecovery_retryLoop ops ar1 fn random now (attempt + 1) error
                        (calls + 1)
                        (delays @ [AutoRecovery_calculateDelay ops ar1 (attempt + 1)
                                     (random (attempt + 1))])
                 else AutoRecovery_retryLoop ops ar1 fn random now (attempt + 1) error
                        (calls + 1) delays))
      else
        (case AutoRecovery_handleFailure ar lastError now of
           (ar1, begun, thrown) \<Rightarrow>
             \<lparr> run_result = Inl (case thrown of None \<Rightarrow> lastError | Some t \<Rightarrow> t),
               run_recovery = ar1, run_passBegun = begun,
               run_calls = calls, run_delays = delays \<rparr>))"
  by pat_completeness auto
termination
  by (relation "measure (\<lambda>(ops, ar, fn, random, now, attempt, lastError, calls, delays).
        Suc (ar_maxRetries ar) - attempt)") auto

declare AutoRecovery_retryLoop.simps [simp del]

definition AutoRecovery_executeWithRecovery ::
  "arithmetic \<Rightarrow> AutoRecovery \<Rightarrow> (nat \<Rightarrow> 'a settled) \<Rightarrow> (nat \<Rightarrow> real) \<Rightarrow> int \<Rightarrow>
   'a recovery_run" where
  "AutoRecovery_executeWithRecovery ops ar fn random now =
     AutoRecovery_retryLoop ops ar fn random now 0 Nullish 0 []"

text \<open>
  \<^verbatim>\<open>performHealthCheck\<close>, given how the promise of \<^verbatim>\<open>this.healthCheck()\<close> settles: the
  recovery, whether a pass was begun, and what \<^verbatim>\<open>performHealthCheck\<close> throws, if anything
  (its \<^verbatim>\<open>catch\<close> block reads \<^verbatim>\<open>error.message\<close> for \<^verbatim>\<open>lastHealthCheck\<close> right after it has
  counted the failed check).
\<close>

definition AutoRecovery_performHealthCheck ::
  "AutoRecovery \<Rightarrow> 'a settled \<Rightarrow> int \<Rightarrow> AutoRecovery \<times> bool \<times> error option" where
  "AutoRecovery_performHealthCheck ar healthResult now =
     (case healthResult of
        Resolved r \<Rightarrow>
          (let ar1 = ar\<lparr>ar_healthCheckSuccesses := ar_healthCheckSuccesses ar + 1\<rparr>;
               ar2 = ar1\<lparr>ar_lastHealthCheck := Some (now, True)\<rparr>
           in (if ar_state ar2 \<noteq> HEALTHY then AutoRecovery_onSuccess ar2 now else ar2,
               False, None))
      | Rejected error \<Rightarrow>
          (let ar1 = ar\<lparr>ar_healthCheckFailures := ar_healthCheckFailures ar + 1\<rparr>
           in if error = Nullish then (ar1, False, Some TypeError)
              else AutoRecovery_handleFailure
                     (ar1\<lparr>ar_lastHealthCheck := Some (now, False)\<rparr>) error now))"

definition AutoRecovery_reset :: "AutoRecovery \<Rightarrow> int \<Rightarrow> AutoRecovery" where
  "AutoRecovery_reset ar now =
     (let ar1 = ar\<lparr>ar_failureCount := 0\<rparr>;
          ar2 = ar1\<lparr>ar_successCount := 0\<rparr>;
          ar3 = ar2\<lparr>ar_retryCount := 0\<rparr>;
          ar4 = ar3\<lparr>ar_isRecovering := False\<rparr>
      in AutoRecovery_endOutage (AutoRecovery_setState ar4 HEALTHY) now)"

text \<open>A promise rejected with an error object, and one rejected without a reason.\<close>

fun rejects_with_error :: "'a settled \<Rightarrow> bool" where
  "rejects_with_error (Rejected e) = (e \<noteq> Nullish)"
| "rejects_with_error (Resolved v) = False"

fun rejects_without_reason :: "'a settled \<Rightarrow> bool" where
  "rejects_without_reason (Rejected e) = (e = Nullish)"
| "rejects_without_reason (Resolved v) = False"

text \<open>Whether a registry entry, executed on \<open>ar\<close> for \<open>e\<close>, raises an error object.\<close>

definition strategy_raises :: "AutoRecovery \<Rightarrow> error \<Rightarrow> string \<times> strategy \<Rightarrow> bool" where
  "strategy_raises ar e p =
     rejects_with_error (fst (AutoRecovery_strategy_execute (snd p) e ar))"

definition strategy_rejects_without_reason ::
  "AutoRecovery \<Rightarrow> error \<Rightarrow> string \<times> strategy \<Rightarrow> bool" where
  "strategy_rejects_without_reason ar e p =
     rejects_without_reason (fst (AutoRecovery_strategy_execute (snd p) e ar))"

subsection \<open>Passes in flight\<close>

text \<open>
  \<open>passes_in_flight ar n\<close>: the recovery \<open>ar\<close> can arise, without any call of \<^verbatim>\<open>reset\<close>,
  with \<open>n\<close> passes of \<^verbatim>\<open>attemptRecovery\<close> begun and not yet ended. The steps are the
  constructor, \<^verbatim>\<open>registerStrategy\<close>, the pieces of \<^verbatim>\<open>executeWithRecovery\<close> (counting a
  retry, \<^verbatim>\<open>handleRecoverySuccess\<close>, \<^verbatim>\<open>onSuccess\<close>, \<^verbatim>\<open>handleFailure\<close>), a health check, the
  beginning of a pass (by \<^verbatim>\<open>handleFailure\<close> or by \<^verbatim>\<open>triggerRecovery\<close>), a strategy of a
  pass in flight running, and the \<^verbatim>\<open>finally\<close> block that ends a pass.
\<close>

inductive passes_in_flight :: "AutoRecovery \<Rightarrow> nat \<Rightarrow> bool" where
  pif_new:
    "passes_in_flight
       (AutoRecovery_new maxRetriesOpt initialDelayOpt maxDelayOpt backoffMultiplierOpt
          healthCheckIntervalOpt failureThresholdOpt recoveryThresholdOpt onRecoverOpt) 0"
| pif_register:
    "passes_in_flight ar n \<Longrightarrow> passes_in_flight (AutoRecovery_registerStrategy ar name s) n"
| pif_retry:
    "passes_in_flight ar n \<Longrightarrow>
     passes_in_flight (ar\<lparr>ar_totalRetries := ar_totalRetries ar + 1\<rparr>) n"
| pif_recovered:
    "passes_in_flight ar n \<Longrightarrow>
     passes_in_flight (AutoRecovery_handleRecoverySuccess ar attempts now) n"
| pif_success:
    "passes_in_flight ar n \<Longrightarrow> passes_in_flight (AutoRecovery_onSuccess ar now) n"
| pif_handleFailure:
    "passes_in_flight ar n \<Longrightarrow>
     passes_in_flight (fst (AutoRecovery_handleFailure ar e now))
       (if fst (snd (AutoRecovery_handleFailure ar e now)) then n + 1 else n)"
| pif_healthCheck:
    "passes_in_flight ar n \<Longrightarrow>
     passes_in_flight (fst (AutoRecovery_performHealthCheck ar (h :: unit settled) now))
       (if fst (snd (AutoRecovery_performHealthCheck ar h now)) then n + 1 else n)"
| pif_begin:
    "passes_in_flight ar n \<Longrightarrow> AutoRecovery_attemptRecovery_begin ar = Some ar1 \<Longrightarrow>
     passes_in_flight ar1 (n + 1)"
| pif_strategy:
    "passes_in_flight ar n \<Longrightarrow> 0 < n \<Longrightarrow>
     passes_in_flight (snd (AutoRecovery_strategy_execute s e ar)) n"
| pif_end:
    "passes_in_flight ar n \<Longrightarrow> 0 < n \<Longrightarrow>
     passes_in_flight (ar\<lparr>ar_isRecovering := False\<rparr>) (n - 1)"

subsection \<open>Test fixtures of the recovery\<close>

text \<open>
  Arithmetic without rounding: double precision agrees with it on the numbers of these
  fixtures (the delays 100, 200, 1000, 1500 and 2000, a tenth of each, and the factors 0
  and one half). Functions that fail twice and then succeed, or succeed at once; random draws that are
  always 0 or always one half; the recovery of the retry scenario (\<^verbatim>\<open>maxRetries\<close> 3,
  \<^verbatim>\<open>initialDelay\<close> 100, multiplier 2), one whose \<^verbatim>\<open>maxDelay\<close> of 1500 caps the second
  delay, one built with defaults only, one whose RETRY strategy was replaced by a
  strategy that rejects, that one after a failure (its pass in flight), and the default
  one after a failed health check.
\<close>

definition exact_arithmetic :: arithmetic where
  "exact_arithmetic =
     \<lparr> fl_mul = (\<lambda>x y. x * y), fl_add = (\<lambda>x y. x + y), fl_pow = (\<lambda>x n. x powi n),
       fl_tenth = 1 / 10 \<rparr>"

definition fails_twice :: "nat \<Rightarrow> unit settled" where
  "fails_twice i = (if i < 2 then Rejected (OperationError ''Test error'') else Resolved ())"

definition always_succeeds :: "nat \<Rightarrow> unit settled" where
  "always_succeeds i = Resolved ()"

definition no_jitter :: "nat \<Rightarrow> real" where
  "no_jitter a = 0"

definition half_jitter :: "nat \<Rightarrow> real" where
  "half_jitter a = 1 / 2"

definition scenario_recovery :: AutoRecovery where
  "scenario_recovery = AutoRecovery_new (Some 3) (Some 100) None (Some 2) None None None None"

definition capped_recovery :: AutoRecovery where
  "capped_recovery = AutoRecovery_new (Some 3) (Some 1000) (Some 1500) (Some 2) None None None None"

definition always_rejects :: "error \<Rightarrow> unit settled" where
  "always_rejects e = Rejected (OperationError ''strategy failed'')"

definition fresh_recovery :: AutoRecovery where
  "fresh_recovery = AutoRecovery_new None None None None None None None None"

definition retry_replaced :: AutoRecovery where
  "retry_replaced =
     AutoRecovery_registerStrategy fresh_recovery ''RETRY'' (CustomStrategy always_rejects)"

definition pass_in_flight :: AutoRecovery where
  "pass_in_flight = fst (AutoRecovery_handleFailure retry_replaced (OperationError ''Test error'') 0)"

definition after_failed_probe :: AutoRecovery where
  "after_failed_probe =
     fst (AutoRecovery_performHealthCheck fresh_recovery
            (Rejected (OperationError ''Health check error'') :: unit settled) 0)"


section \<open>Properties of the circuit breaker\<close>

lemmas cb_defs = CircuitBreaker_execute_def CircuitBreaker_execute_enter_def
  CircuitBreaker_executeWithTimeout_def CircuitBreaker_execute_settle_def
  CircuitBreaker_execute_catch_def
  CircuitBreaker_onFailure_def CircuitBreaker_onSuccess_def CircuitBreaker_openCircuit_def
  CircuitBreaker_setState_def

lemmas cb_fixture_defs = test_breaker_def failed_once_def failed_twice_def opened_breaker_def
  closed_with_success_def three_entered_def open_after_overlap_def
  resolves_after_def rejects_after_def CircuitBreaker_new_def or_default_nat_def
  or_default_int_def keep_last_100_def

lemma opened_breaker_fields:
  "cb_state opened_breaker = OPEN"
  "cb_nextAttempt opened_breaker = 1025"
  "cb_failureCount opened_breaker = 3"
  "cb_failureThreshold opened_breaker = 3"
  "cb_resetTimeout opened_breaker = 1000"
  "cb_timeout opened_breaker = 500"
  "cb_totalRequests opened_breaker = 3"
  "cb_totalFailures opened_breaker = 3"
  "cb_totalCircuitBreakerOpens opened_breaker = 1"
  by (simp_all add: cb_fixture_defs cb_defs Let_def)

lemma failed_twice_fields:
  "cb_state failed_twice = CLOSED"
  "cb_failureCount failed_twice = 2"
  "cb_failureThreshold failed_twice = 3"
  "cb_resetTimeout failed_twice = 1000"
  "cb_timeout failed_twice = 500"
  "cb_nextAttempt failed_twice = 0"
  by (simp_all add: cb_fixture_defs cb_defs Let_def)

text \<open>
  C1. When the breaker is OPEN and the call is made before \<^verbatim>\<open>nextAttempt\<close>, \<^verbatim>\<open>execute\<close>
  rejects with the circuit-open error at the very instant of the call, the wrapped
  function is not invoked, and the whole outcome does not depend on the function.
\<close>

theorem C1_open_fails_fast:
  assumes "cb_state cb = OPEN" and "now < cb_nextAttempt cb"
  shows "ex_result (CircuitBreaker_execute cb fn now) = Inl CircuitOpenError
       \<and> \<not> ex_invoked (CircuitBreaker_execute cb fn now)
       \<and> ex_finishedAt (CircuitBreaker_execute cb fn now) = now
       \<and> (\<forall>fn'. CircuitBreaker_execute cb fn' now = CircuitBreaker_execute cb fn now)"
  using assms
  by (simp add: CircuitBreaker_execute_def CircuitBreaker_execute_enter_def
      CircuitBreaker_execute_catch_def CircuitBreaker_onFailure_def Let_def)

text \<open>
  Witness of C1: the breaker of the test suite after three failures, called at time 30,
  before its \<^verbatim>\<open>nextAttempt\<close> of 1025.
\<close>

theorem C1_open_fails_fast_witness:
  "cb_state opened_breaker = OPEN \<and> 30 < cb_nextAttempt opened_breaker
 \<and> ex_result (CircuitBreaker_execute opened_breaker (resolves_after 5) 30) = Inl CircuitOpenError
 \<and> \<not> ex_invoked (CircuitBreaker_execute opened_breaker (resolves_after 5) 30)
 \<and> ex_finishedAt (CircuitBreaker_execute opened_breaker (resolves_after 5) 30) = 30"
proof -
  have h1: "cb_state opened_breaker = OPEN"
    by (simp add: opened_breaker_fields)
  have h2: "30 < cb_nextAttempt opened_breaker"
    by (simp add: opened_breaker_fields)
  show ?thesis
    using h1 h2 C1_open_fails_fast [OF h1 h2, of "resolves_after 5"] by simp
qed

text \<open>
  What C4 asks for holds of every failure whose reason is an error object: the counter
  grows by one, at the threshold the breaker is OPEN with \<^verbatim>\<open>nextAttempt\<close> the instant of
  the failure plus \<^verbatim>\<open>resetTimeout\<close>, and the caller gets the error the wrapped function
  rejected with.
\<close>

lemma failure_bookkeeping_of_errors:
  assumes "ex_result (CircuitBreaker_execute cb fn now) = Inl e"
    and "\<forall>d. fn now \<noteq> (d, Rejected Nullish)"
  shows "cb_failureCount (ex_breaker (CircuitBreaker_execute cb fn now)) = cb_failureCount cb + 1
       \<and> (cb_failureThreshold cb \<le> cb_failureCount cb + 1 \<longrightarrow>
            cb_state (ex_breaker (CircuitBreaker_execute cb fn now)) = OPEN
          \<and> cb_nextAttempt (ex_breaker (CircuitBreaker_execute cb fn now))
              = ex_finishedAt (CircuitBreaker_execute cb fn now) + cb_resetTimeout cb)
       \<and> (\<forall>d e0. ex_invoked (CircuitBreaker_execute cb fn now) \<longrightarrow> fn now = (d, Rejected e0)
             \<longrightarrow> d < cb_timeout cb \<longrightarrow> e = e0)"
  using assms
  by (auto simp: cb_defs Let_def split: if_splits prod.splits settled.splits completion.splits)

text \<open>
  C4 fails on the code when the wrapped function rejects without a reason. The breaker
  of the test suite (threshold 3) has failed twice; the third call, at time 20, invokes
  a function whose promise is rejected with \<^verbatim>\<open>undefined\<close> 5 ms later. \<^verbatim>\<open>onFailure\<close> counts
  the failure, so the counter reaches the threshold, and then raises a type error at
  \<^verbatim>\<open>error.message\<close>: the breaker stays CLOSED, \<^verbatim>\<open>nextAttempt\<close> is not set, and the caller
  gets the type error and not the rejection.
\<close>

theorem C4_undefined_rejection:
  "cb_failureThreshold failed_twice = 3
 \<and> cb_failureCount failed_twice = 2
 \<and> rejects_undefined_after 5 20 = (5, Rejected Nullish)
 \<and> ex_invoked (CircuitBreaker_execute failed_twice (rejects_undefined_after 5) 20)
 \<and> ex_result (CircuitBreaker_execute failed_twice (rejects_undefined_after 5) 20) = Inl TypeError
 \<and> cb_failureCount (ex_breaker (CircuitBreaker_execute failed_twice (rejects_undefined_after 5) 20))
     = 3
 \<and> cb_state (ex_breaker (CircuitBreaker_execute failed_twice (rejects_undefined_after 5) 20))
     = CLOSED
 \<and> cb_nextAttempt (ex_breaker (CircuitBreaker_execute failed_twice (rejects_undefined_after 5) 20))
     = cb_nextAttempt failed_twice"
  by (simp add: cb_defs failed_twice_fields rejects_undefined_after_def Let_def)




text \<open>
  C9, as the code has it. No state change touches \<^verbatim>\<open>successCount\<close>: \<^verbatim>\<open>setState\<close>,
  \<^verbatim>\<open>openCircuit\<close> and \<^verbatim>\<open>onFailure\<close> leave it as it is, \<^verbatim>\<open>onSuccess\<close> adds one to it (also when
  it closes a HALF_OPEN breaker), and only \<^verbatim>\<open>reset\<close> sets it to 0.
\<close>

theorem C9_success_counter_kept:
  "cb_successCount (CircuitBreaker_setState cb newState now) = cb_successCount cb
 \<and> cb_successCount (CircuitBreaker_openCircuit cb now) = cb_successCount cb
 \<and> cb_successCount (snd (CircuitBreaker_onFailure cb err now)) = cb_successCount cb
 \<and> cb_successCount (CircuitBreaker_onSuccess cb now) = cb_successCount cb + 1
 \<and> cb_successCount (CircuitBreaker_reset cb now) = 0"
  by (simp add: cb_defs CircuitBreaker_reset_def Let_def)

text \<open>
  An instance of the statement above: opening the breaker that has one success.
\<close>

theorem C9_success_counter_kept_witness:
  "cb_successCount (CircuitBreaker_openCircuit closed_with_success 20) = 1"
proof -
  have "cb_successCount closed_with_success = 1"
    by (simp add: cb_fixture_defs cb_defs Let_def)
  then show ?thesis
    using C9_success_counter_kept [of closed_with_success OPEN 20 CircuitOpenError] by simp
qed

text \<open>
  C9 as stated fails: a breaker with threshold 1 and one success is CLOSED with
  \<^verbatim>\<open>successCount\<close> 1; a failing call changes its state to OPEN and the counter is still 1.
\<close>

theorem C9_counterexample:
  "cb_state closed_with_success = CLOSED
 \<and> cb_successCount closed_with_success = 1
 \<and> cb_state (ex_breaker (CircuitBreaker_execute closed_with_success (rejects_after 5) 20)) = OPEN
 \<and> cb_successCount (ex_breaker (CircuitBreaker_execute closed_with_success (rejects_after 5) 20)) = 1"
  by (simp add: cb_fixture_defs cb_defs Let_def)

lemma serial_open_counter:
  "serial cb \<Longrightarrow> cb_state cb \<noteq> CLOSED \<longrightarrow> cb_failureThreshold cb \<le> cb_failureCount cb"
proof (induction rule: serial.induct)
  case (serial_new failureThresholdOpt resetTimeoutOpt timeoutOpt now)
  then show ?case by (simp add: CircuitBreaker_new_def)
next
  case (serial_execute cb fn now)
  then show ?case
    by (cases "cb_state cb")
       (auto simp: cb_defs Let_def split: if_splits prod.splits settled.splits completion.splits)
next
  case (serial_reset cb now)
  then show ?case by (simp add: CircuitBreaker_reset_def CircuitBreaker_setState_def Let_def)
qed

lemma serial_opened_breaker: "serial opened_breaker"
  unfolding opened_breaker_def failed_twice_def failed_once_def test_breaker_def
  by (intro serial_execute serial_new)

text \<open>
  C10, as the code has it. A call rejected while OPEN is counted as a failure:
  \<^verbatim>\<open>totalRequests\<close>, \<^verbatim>\<open>totalFailures\<close> and \<^verbatim>\<open>failureCount\<close> each grow by one. When the
  counter has then reached \<^verbatim>\<open>failureThreshold\<close>, \<^verbatim>\<open>openCircuit\<close> runs again and moves
  \<^verbatim>\<open>nextAttempt\<close> to the instant of the rejected call plus \<^verbatim>\<open>resetTimeout\<close>; otherwise
  \<^verbatim>\<open>nextAttempt\<close> stays. The counter has reached the threshold in every OPEN breaker
  whose calls did not overlap.
\<close>

theorem C10_rejection_counts_as_failure:
  assumes "cb_state cb = OPEN" and "now < cb_nextAttempt cb"
  shows "cb_totalRequests (ex_breaker (CircuitBreaker_execute cb fn now)) = cb_totalRequests cb + 1
       \<and> cb_totalFailures (ex_breaker (CircuitBreaker_execute cb fn now)) = cb_totalFailures cb + 1
       \<and> cb_failureCount (ex_breaker (CircuitBreaker_execute cb fn now)) = cb_failureCount cb + 1
       \<and> (cb_failureThreshold cb \<le> cb_failureCount cb + 1 \<longrightarrow>
            cb_state (ex_breaker (CircuitBreaker_execute cb fn now)) = OPEN
          \<and> cb_nextAttempt (ex_breaker (CircuitBreaker_execute cb fn now)) = now + cb_resetTimeout cb
          \<and> cb_totalCircuitBreakerOpens (ex_breaker (CircuitBreaker_execute cb fn now))
              = cb_totalCircuitBreakerOpens cb + 1)
       \<and> (\<not> cb_failureThreshold cb \<le> cb_failureCount cb + 1 \<longrightarrow>
            cb_nextAttempt (ex_breaker (CircuitBreaker_execute cb fn now)) = cb_nextAttempt cb)
       \<and> (serial cb \<longrightarrow> cb_failureThreshold cb \<le> cb_failureCount cb + 1)"
  using assms serial_open_counter [of cb]
  by (auto simp: cb_defs Let_def)

text \<open>
  Witness of C10: the opened breaker of the test suite, called at time 30; the probe
  moves from 1025 to 1030.
\<close>

theorem C10_rejection_counts_as_failure_witness:
  "cb_state opened_breaker = OPEN \<and> 30 < cb_nextAttempt opened_breaker
 \<and> serial opened_breaker
 \<and> cb_failureThreshold opened_breaker \<le> cb_failureCount opened_breaker + 1
 \<and> cb_failureCount (ex_breaker (CircuitBreaker_execute opened_breaker (resolves_after 5) 30)) = 4
 \<and> cb_totalRequests (ex_breaker (CircuitBreaker_execute opened_breaker (resolves_after 5) 30)) = 4
 \<and> cb_totalFailures (ex_breaker (CircuitBreaker_execute opened_breaker (resolves_after 5) 30)) = 4
 \<and> cb_nextAttempt (ex_breaker (CircuitBreaker_execute opened_breaker (resolves_after 5) 30)) = 1030"
proof -
  have h1: "cb_state opened_breaker = OPEN"
    by (simp add: opened_breaker_fields)
  have h2: "30 < cb_nextAttempt opened_breaker"
    by (simp add: opened_breaker_fields)
  have h3: "cb_failureThreshold opened_breaker \<le> cb_failureCount opened_breaker + 1"
    by (simp add: opened_breaker_fields)
  note r = C10_rejection_counts_as_failure [OF h1 h2, of "resolves_after 5"]
  have c1: "cb_failureCount (ex_breaker (CircuitBreaker_execute opened_breaker (resolves_after 5) 30)) = 4
     \<and> cb_totalRequests (ex_breaker (CircuitBreaker_execute opened_breaker (resolves_after 5) 30)) = 4
     \<and> cb_totalFailures (ex_breaker (CircuitBreaker_execute opened_breaker (resolves_after 5) 30)) = 4"
    using r by (simp add: opened_breaker_fields)
  have c2: "cb_nextAttempt (ex_breaker (CircuitBreaker_execute opened_breaker (resolves_after 5) 30)) = 1030"
    using r h3 by (simp add: opened_breaker_fields)
  show ?thesis
    using h1 h2 h3 serial_opened_breaker c1 c2 by blast
qed

text \<open>
  C10 as stated fails when calls overlap: after three calls entered a CLOSED breaker
  with threshold 2, two of them failed and the third succeeded, the breaker is OPEN
  with \<^verbatim>\<open>failureCount\<close> 0. A call rejected at time 4, before \<^verbatim>\<open>nextAttempt\<close>, leaves
  \<^verbatim>\<open>nextAttempt\<close> where it was.
\<close>

theorem C10_counterexample:
  "cb_state open_after_overlap = OPEN
 \<and> 4 < cb_nextAttempt open_after_overlap
 \<and> cb_nextAttempt (ex_breaker (CircuitBreaker_execute open_after_overlap (rejects_after 5) 4))
     \<noteq> 4 + cb_resetTimeout open_after_overlap"
  by (simp add: cb_fixture_defs cb_defs Let_def)

section \<open>Properties of the bulkhead\<close>

lemma length_Map_set: "length (Map_set m k v) \<le> Suc (length m)"
  by (induction m) auto

lemma set_Map_set: "set (Map_set m k v) \<subseteq> insert (k, v) (set m)"
  by (induction m) auto

lemma length_Map_delete: "(k, v) \<in> set m \<Longrightarrow> length (Map_delete m k) < length m"
  unfolding Map_delete_def by (rule length_filter_less [where x = "(k, v)"]) auto

lemma set_Map_delete: "set (Map_delete m k) \<subseteq> set m"
  unfolding Map_delete_def by auto

lemma set_splice_first: "set (splice_first i ts) \<subseteq> set ts"
  by (induction ts) auto

lemma length_splice_first: "length (splice_first i ts) \<le> length ts"
  by (induction ts) auto

lemma inv_executeTask_start:
  assumes "Bulkhead_inv bh" and "bh_currentConcurrency bh < bh_maxConcurrent bh"
    and "task_queueTimeoutId task = None"
  shows "Bulkhead_inv (snd (Bulkhead_executeTask_start bh task now))"
proof -
  let ?t = "fst (Bulkhead_executeTask_start bh task now)"
  let ?b = "snd (Bulkhead_executeTask_start bh task now)"
  have run: "bh_runningTasks ?b = Map_set (bh_runningTasks bh) (task_id ?t) ?t"
    by (simp add: Bulkhead_executeTask_start_def Let_def)
  have t: "task_status ?t = RUNNING" "task_queueTimeoutId ?t = None"
    "task_startedAt ?t = Some now" "task_timeoutId ?t = Some (now + bh_timeout bh)"
    using assms(3) by (simp_all add: Bulkhead_executeTask_start_def Let_def)
  have same: "bh_maxConcurrent ?b = bh_maxConcurrent bh" "bh_maxQueueSize ?b = bh_maxQueueSize bh"
    "bh_taskQueue ?b = bh_taskQueue bh" "bh_timeout ?b = bh_timeout bh"
    "bh_queueTimeout ?b = bh_queueTimeout bh"
    "bh_currentConcurrency ?b = bh_currentConcurrency bh + 1"
    by (simp_all add: Bulkhead_executeTask_start_def Let_def)
  have len: "int (length (bh_runningTasks ?b)) \<le> bh_currentConcurrency ?b"
    using assms(1) length_Map_set [of "bh_runningTasks bh" "task_id ?t" ?t]
    unfolding run same Bulkhead_inv_def by linarith
  have ent: "\<forall>p \<in> set (bh_runningTasks ?b).
         fst p = task_id (snd p) \<and> task_status (snd p) = RUNNING
       \<and> task_queueTimeoutId (snd p) = None
       \<and> (\<exists>s. task_startedAt (snd p) = Some s \<and> task_timeoutId (snd p) = Some (s + bh_timeout ?b))"
  proof
    fix p assume "p \<in> set (bh_runningTasks ?b)"
    then have "p = (task_id ?t, ?t) \<or> p \<in> set (bh_runningTasks bh)"
      using set_Map_set [of "bh_runningTasks bh" "task_id ?t" ?t] unfolding run by auto
    then show "fst p = task_id (snd p) \<and> task_status (snd p) = RUNNING
       \<and> task_queueTimeoutId (snd p) = None
       \<and> (\<exists>s. task_startedAt (snd p) = Some s \<and> task_timeoutId (snd p) = Some (s + bh_timeout ?b))"
      using assms(1) t unfolding same Bulkhead_inv_def by auto
  qed
  show ?thesis
    unfolding Bulkhead_inv_def
    using assms(1,2) len ent unfolding same Bulkhead_inv_def by simp
qed

lemma inv_processQueue:
  assumes "Bulkhead_inv bh"
  shows "Bulkhead_inv (Bulkhead_processQueue bh now)"
proof (cases "bh_taskQueue bh")
  case Nil
  then show ?thesis using assms by (simp add: Bulkhead_processQueue_def)
next
  case (Cons task rest)
  show ?thesis
  proof (cases "bh_currentConcurrency bh \<ge> bh_maxConcurrent bh")
    case True
    then show ?thesis using assms Cons by (simp add: Bulkhead_processQueue_def)
  next
    case False
    let ?b2 = "bh\<lparr>bh_taskQueue := rest, bh_currentQueueSize := int (length rest)\<rparr>"
    have "Bulkhead_inv ?b2"
      using assms Cons unfolding Bulkhead_inv_def by auto
    moreover have "bh_currentConcurrency ?b2 < bh_maxConcurrent ?b2"
      using False by simp
    ultimately have "Bulkhead_inv (snd (Bulkhead_executeTask_start ?b2
        (task\<lparr>task_queueTimeoutId := None\<rparr>) now))"
      by (rule inv_executeTask_start) simp
    then show ?thesis
      using False Cons by (simp add: Bulkhead_processQueue_def Let_def)
  qed
qed

lemma inv_executeTask_finish:
  assumes "Bulkhead_inv bh" and "(task_id task, task) \<in> set (bh_runningTasks bh)"
  shows "Bulkhead_inv (snd (snd (Bulkhead_executeTask_finish bh task c now)))"
proof -
  define m where "m = Map_delete (bh_runningTasks bh) (task_id task)"
  define n where "n = (case c of Returned v \<Rightarrow> bh_totalCompleted bh + 1 | _ \<Rightarrow> bh_totalCompleted bh)"
  let ?b4 = "bh\<lparr>bh_totalCompleted := n, bh_runningTasks := m,
                 bh_currentConcurrency := bh_currentConcurrency bh - 1,
                 bh_metricsCurrentConcurrency := bh_currentConcurrency bh - 1\<rparr>"
  have eq: "snd (snd (Bulkhead_executeTask_finish bh task c now)) = Bulkhead_processQueue ?b4 now"
    by (cases c)
       (simp_all add: Bulkhead_executeTask_finish_def Bulkhead_handleTaskSuccess_def
          Bulkhead_handleTaskFailure_def Let_def m_def n_def)
  have "length m < length (bh_runningTasks bh)"
    unfolding m_def using assms(2) by (rule length_Map_delete)
  moreover have "set m \<subseteq> set (bh_runningTasks bh)"
    unfolding m_def by (rule set_Map_delete)
  ultimately have "Bulkhead_inv ?b4"
    using assms(1) unfolding Bulkhead_inv_def by auto
  then show ?thesis
    unfolding eq by (rule inv_processQueue)
qed

lemma inv_execute:
  assumes "Bulkhead_inv bh"
  shows "Bulkhead_inv (snd (Bulkhead_execute bh now))"
proof -
  let ?task = "fst (Bulkhead_createTask bh now)"
  let ?b1 = "bh\<lparr>bh_nextTaskId := bh_nextTaskId bh + 1, bh_totalSubmitted := bh_totalSubmitted bh + 1\<rparr>"
  have inv1: "Bulkhead_inv ?b1"
    using assms unfolding Bulkhead_inv_def by simp
  have task: "task_queueTimeoutId ?task = None" "task_status ?task = PENDING"
    "task_startedAt ?task = None" "task_timeoutId ?task = None" "task_createdAt ?task = now"
    by (simp_all add: Bulkhead_createTask_def)
  show ?thesis
  proof (cases "bh_currentConcurrency bh < bh_maxConcurrent bh")
    case True
    then have "snd (Bulkhead_execute bh now) = snd (Bulkhead_executeTask_start ?b1 ?task now)"
      by (simp add: Bulkhead_execute_def Bulkhead_createTask_def Let_def split: prod.splits)
    moreover have "Bulkhead_inv (snd (Bulkhead_executeTask_start ?b1 ?task now))"
      using inv1 True task(1) by (intro inv_executeTask_start) simp_all
    ultimately show ?thesis by simp
  next
    case False
    then have eq: "snd (Bulkhead_execute bh now) = snd (Bulkhead_queueTask ?b1 ?task now)"
      by (simp add: Bulkhead_execute_def Bulkhead_createTask_def Let_def
          split: prod.splits admission.splits)
    have "Bulkhead_inv (snd (Bulkhead_queueTask ?b1 ?task now))"
      using inv1 task unfolding Bulkhead_queueTask_def Bulkhead_inv_def
      by (auto simp: Let_def)
    then show ?thesis unfolding eq .
  qed
qed

lemma inv_queueTimeout:
  assumes "Bulkhead_inv bh"
  shows "Bulkhead_inv (snd (snd (Bulkhead_queueTimeout_fires bh task)))"
  using assms set_splice_first [of "task_id task" "bh_taskQueue bh"]
    length_splice_first [of "task_id task" "bh_taskQueue bh"]
  unfolding Bulkhead_queueTimeout_fires_def Bulkhead_removeFromQueue_def Bulkhead_inv_def
  by (auto simp: Let_def)

lemma inv_clearQueue:
  assumes "Bulkhead_inv bh"
  shows "Bulkhead_inv (Bulkhead_clearQueue bh)"
  using assms unfolding Bulkhead_clearQueue_def Bulkhead_inv_def by (simp add: Let_def)

lemma reachable_inv: "Bulkhead_reachable bh \<Longrightarrow> Bulkhead_inv bh"
proof (induction rule: Bulkhead_reachable.induct)
  case (reach_new bh maxConcurrentOpt maxQueueSizeOpt timeoutOpt queueTimeoutOpt)
  then show ?case by (simp add: Bulkhead_inv_def Bulkhead_new_def)
next
  case (reach_execute bh now)
  then show ?case by (simp add: inv_execute)
next
  case (reach_finish bh task c now)
  then show ?case by (simp add: inv_executeTask_finish)
next
  case (reach_queueTimeout bh task)
  then show ?case by (simp add: inv_queueTimeout)
next
  case (reach_clearQueue bh)
  then show ?case by (simp add: inv_clearQueue)
qed


lemmas bh_fixture_defs = small_bulkhead_def one_running_def one_running_one_queued_def
  Bulkhead_new_def or_default_int_def Bulkhead_execute_def Bulkhead_createTask_def
  Bulkhead_executeTask_start_def Bulkhead_queueTask_def Bulkhead_handleTaskFailure_def

lemma reachable_small_bulkhead: "Bulkhead_reachable small_bulkhead"
  by (rule reach_new [of _ "Some 1" "Some 1" "Some 1000" "Some 2000"])
     (simp_all add: small_bulkhead_def Bulkhead_new_def or_default_int_def)

lemma reachable_one_running_one_queued: "Bulkhead_reachable one_running_one_queued"
  unfolding one_running_one_queued_def one_running_def
  by (intro reach_execute reachable_small_bulkhead)

lemma one_running_one_queued_fields:
  "bh_maxConcurrent one_running_one_queued = 1"
  "bh_maxQueueSize one_running_one_queued = 1"
  "bh_currentConcurrency one_running_one_queued = 1"
  "bh_timeout one_running_one_queued = 1000"
  "bh_queueTimeout one_running_one_queued = 2000"
  "bh_runningTasks one_running_one_queued =
     [(0, \<lparr> task_id = 0, task_status = RUNNING, task_createdAt = 0, task_startedAt = Some 0,
            task_completedAt = None, task_executionTime = 0, task_queueTime = 0,
            task_queueTimeoutId = None, task_timeoutId = Some 1000 \<rparr>)]"
  "bh_taskQueue one_running_one_queued =
     [\<lparr> task_id = 1, task_status = PENDING, task_createdAt = 10, task_startedAt = None,
        task_completedAt = None, task_executionTime = 0, task_queueTime = 0,
        task_queueTimeoutId = Some 2010, task_timeoutId = None \<rparr>]"
  by (simp_all add: bh_fixture_defs Let_def)

text \<open>
  C2. In every bulkhead that can arise, the running map and the concurrency counter
  are at most \<^verbatim>\<open>maxConcurrent\<close> and the queue is at most \<^verbatim>\<open>maxQueueSize\<close> long; and a
  submission made when the running map holds \<^verbatim>\<open>maxConcurrent\<close> tasks and the queue
  \<^verbatim>\<open>maxQueueSize\<close> tasks is rejected with the queue-full error before any \<^verbatim>\<open>await\<close>,
  leaving the queue, the running map and the counter as they were.
\<close>

theorem C2_bulkhead_bounds:
  assumes "Bulkhead_reachable bh"
  shows "int (length (bh_runningTasks bh)) \<le> bh_maxConcurrent bh
       \<and> bh_currentConcurrency bh \<le> bh_maxConcurrent bh
       \<and> int (length (bh_taskQueue bh)) \<le> bh_maxQueueSize bh
       \<and> (int (length (bh_runningTasks bh)) = bh_maxConcurrent bh \<longrightarrow>
          int (length (bh_taskQueue bh)) = bh_maxQueueSize bh \<longrightarrow>
            (\<exists>t. fst (Bulkhead_execute bh now) = RejectedFull QueueFullError t)
          \<and> bh_taskQueue (snd (Bulkhead_execute bh now)) = bh_taskQueue bh
          \<and> bh_runningTasks (snd (Bulkhead_execute bh now)) = bh_runningTasks bh
          \<and> bh_currentConcurrency (snd (Bulkhead_execute bh now)) = bh_currentConcurrency bh)"
proof -
  have inv: "Bulkhead_inv bh"
    using assms by (rule reachable_inv)
  have bounds: "int (length (bh_runningTasks bh)) \<le> bh_currentConcurrency bh"
    "bh_currentConcurrency bh \<le> bh_maxConcurrent bh"
    "int (length (bh_taskQueue bh)) \<le> bh_maxQueueSize bh"
    using inv unfolding Bulkhead_inv_def by simp_all
  have full: "(\<exists>t. fst (Bulkhead_execute bh now) = RejectedFull QueueFullError t)
          \<and> bh_taskQueue (snd (Bulkhead_execute bh now)) = bh_taskQueue bh
          \<and> bh_runningTasks (snd (Bulkhead_execute bh now)) = bh_runningTasks bh
          \<and> bh_currentConcurrency (snd (Bulkhead_execute bh now)) = bh_currentConcurrency bh"
    if "int (length (bh_runningTasks bh)) = bh_maxConcurrent bh"
      and "int (length (bh_taskQueue bh)) = bh_maxQueueSize bh"
  proof -
    have "\<not> bh_currentConcurrency bh < bh_maxConcurrent bh"
      using that(1) bounds(1) by linarith
    then show ?thesis
      using that(2)
      by (simp add: Bulkhead_execute_def Bulkhead_createTask_def Bulkhead_queueTask_def Let_def)
  qed
  have b1: "int (length (bh_runningTasks bh)) \<le> bh_maxConcurrent bh"
    using bounds(1,2) by linarith
  show ?thesis
    using b1 bounds(2,3) full by blast
qed

text \<open>
  Witness of C2: a bulkhead with one slot and a queue of one, one task running and one
  queued; the third submission, at time 20, is rejected.
\<close>

theorem C2_bulkhead_bounds_witness:
  "Bulkhead_reachable one_running_one_queued
 \<and> int (length (bh_runningTasks one_running_one_queued)) = bh_maxConcurrent one_running_one_queued
 \<and> int (length (bh_taskQueue one_running_one_queued)) = bh_maxQueueSize one_running_one_queued
 \<and> (\<exists>t. fst (Bulkhead_execute one_running_one_queued 20) = RejectedFull QueueFullError t)
 \<and> bh_taskQueue (snd (Bulkhead_execute one_running_one_queued 20))
     = bh_taskQueue one_running_one_queued"
proof -
  have h1: "int (length (bh_runningTasks one_running_one_queued))
              = bh_maxConcurrent one_running_one_queued"
    by (simp add: one_running_one_queued_fields)
  have h2: "int (length (bh_taskQueue one_running_one_queued))
              = bh_maxQueueSize one_running_one_queued"
    by (simp add: one_running_one_queued_fields)
  note r = C2_bulkhead_bounds [OF reachable_one_running_one_queued, of 20]
  show ?thesis
    using r h1 h2 reachable_one_running_one_queued by blast
qed

text \<open>
  C7. In every bulkhead that can arise, each queued task is PENDING, has never
  started, has no execution timer, and its queue timer is due \<^verbatim>\<open>queueTimeout\<close> after its
  creation; each running task is RUNNING, its queue timer is gone, and its execution
  timer is due \<^verbatim>\<open>timeout\<close> after the instant it started; a task that is started gets
  status RUNNING and its execution timer at that same instant; and the running map and
  the queue together hold at most \<^verbatim>\<open>maxConcurrent + maxQueueSize\<close> tasks.
\<close>

theorem C7_timeout_clocks:
  assumes "Bulkhead_reachable bh"
  shows "(\<forall>t \<in> set (bh_taskQueue bh).
            task_status t = PENDING \<and> task_startedAt t = None \<and> task_timeoutId t = None
          \<and> task_queueTimeoutId t = Some (task_createdAt t + bh_queueTimeout bh))
       \<and> (\<forall>p \<in> set (bh_runningTasks bh).
            task_status (snd p) = RUNNING \<and> task_queueTimeoutId (snd p) = None
          \<and> (\<exists>s. task_startedAt (snd p) = Some s
                 \<and> task_timeoutId (snd p) = Some (s + bh_timeout bh)))
       \<and> task_status (fst (Bulkhead_executeTask_start bh task now)) = RUNNING
       \<and> task_startedAt (fst (Bulkhead_executeTask_start bh task now)) = Some now
       \<and> task_timeoutId (fst (Bulkhead_executeTask_start bh task now)) = Some (now + bh_timeout bh)
       \<and> int (length (bh_runningTasks bh)) + int (length (bh_taskQueue bh))
            \<le> bh_maxConcurrent bh + bh_maxQueueSize bh"
proof -
  have inv: "Bulkhead_inv bh"
    using assms by (rule reachable_inv)
  have start: "task_status (fst (Bulkhead_executeTask_start bh task now)) = RUNNING
       \<and> task_startedAt (fst (Bulkhead_executeTask_start bh task now)) = Some now
       \<and> task_timeoutId (fst (Bulkhead_executeTask_start bh task now)) = Some (now + bh_timeout bh)"
    by (simp add: Bulkhead_executeTask_start_def Let_def)
  have "int (length (bh_runningTasks bh)) + int (length (bh_taskQueue bh))
            \<le> bh_maxConcurrent bh + bh_maxQueueSize bh"
    using inv unfolding Bulkhead_inv_def by linarith
  then show ?thesis
    using inv start unfolding Bulkhead_inv_def by blast
qed

text \<open>
  Witness of C7: the bulkhead with one task running (started at 0, time-out 1000) and
  one queued (created at 10, queue time-out 2000).
\<close>

theorem C7_timeout_clocks_witness:
  "Bulkhead_reachable one_running_one_queued
 \<and> hd (bh_taskQueue one_running_one_queued) \<in> set (bh_taskQueue one_running_one_queued)
 \<and> hd (bh_runningTasks one_running_one_queued) \<in> set (bh_runningTasks one_running_one_queued)
 \<and> task_status (hd (bh_taskQueue one_running_one_queued)) = PENDING
 \<and> task_timeoutId (hd (bh_taskQueue one_running_one_queued)) = None
 \<and> task_queueTimeoutId (hd (bh_taskQueue one_running_one_queued)) = Some 2010
 \<and> task_status (snd (hd (bh_runningTasks one_running_one_queued))) = RUNNING
 \<and> task_queueTimeoutId (snd (hd (bh_runningTasks one_running_one_queued))) = None
 \<and> task_timeoutId (snd (hd (bh_runningTasks one_running_one_queued))) = Some 1000"
proof -
  note r = C7_timeout_clocks [OF reachable_one_running_one_queued,
      where task = "hd (bh_taskQueue one_running_one_queued)" and now = 20]
  have q: "hd (bh_taskQueue one_running_one_queued) \<in> set (bh_taskQueue one_running_one_queued)"
    by (simp add: one_running_one_queued_fields)
  have p: "hd (bh_runningTasks one_running_one_queued) \<in> set (bh_runningTasks one_running_one_queued)"
    by (simp add: one_running_one_queued_fields)
  have created: "task_createdAt (hd (bh_taskQueue one_running_one_queued)) = 10"
    by (simp add: one_running_one_queued_fields)
  have started: "task_startedAt (snd (hd (bh_runningTasks one_running_one_queued))) = Some 0"
    by (simp add: one_running_one_queued_fields)
  have c1: "task_status (hd (bh_taskQueue one_running_one_queued)) = PENDING
     \<and> task_timeoutId (hd (bh_taskQueue one_running_one_queued)) = None
     \<and> task_queueTimeoutId (hd (bh_taskQueue one_running_one_queued)) = Some 2010"
    using r q created by (auto simp: one_running_one_queued_fields(5))
  have c2: "task_status (snd (hd (bh_runningTasks one_running_one_queued))) = RUNNING
     \<and> task_queueTimeoutId (snd (hd (bh_runningTasks one_running_one_queued))) = None
     \<and> task_timeoutId (snd (hd (bh_runningTasks one_running_one_queued))) = Some 1000"
    using r p started by (auto simp: one_running_one_queued_fields(4))
  show ?thesis
    using reachable_one_running_one_queued q p c1 c2 by blast
qed

section \<open>Properties of the recovery supervisor\<close>

lemma calculateDelay_totalRetries [simp]:
  "AutoRecovery_calculateDelay ops (ar\<lparr>ar_totalRetries := n\<rparr>) a r
     = AutoRecovery_calculateDelay ops ar a r"
  by (simp add: AutoRecovery_calculateDelay_def)

text \<open>
  The loop from attempt \<open>a\<close> on, when the function rejects with an error object until
  its \<open>k\<close>-th invocation and resolves there.
\<close>

lemma retryLoop_succeeds:
  assumes "k \<le> ar_maxRetries ar" and "a \<le> k"
    and "\<forall>i. a \<le> i \<and> i < k \<longrightarrow> rejects_with_error (fn i)"
    and "fn k = Resolved v"
  shows "AutoRecovery_retryLoop ops ar fn random now a lastError a delays =
     \<lparr> run_result = Inr v,
       run_recovery = AutoRecovery_onSuccess
         (if k > 0
          then AutoRecovery_handleRecoverySuccess
                 (ar\<lparr>ar_totalRetries := ar_totalRetries ar + (k - a)\<rparr>) k now
          else ar\<lparr>ar_totalRetries := ar_totalRetries ar + (k - a)\<rparr>) now,
       run_passBegun = False,
       run_calls = k + 1,
       run_delays = delays @ map (\<lambda>i. AutoRecovery_calculateDelay ops ar i (random i))
                               [Suc a..<Suc k] \<rparr>"
  using assms
proof (induction "k - a" arbitrary: a ar lastError delays)
  case 0
  then have ak: "a = k" by simp
  show ?case
    using 0 unfolding ak
    by (subst AutoRecovery_retryLoop.simps) (simp add: Let_def)
next
  case (Suc n)
  then have lt: "a < k" by simp
  then have "rejects_with_error (fn a)"
    using Suc.prems(3) by simp
  then obtain e where rej: "fn a = Rejected e" and e: "e \<noteq> Nullish"
    by (cases "fn a") auto
  let ?ar1 = "ar\<lparr>ar_totalRetries := ar_totalRetries ar + 1\<rparr>"
  have step: "AutoRecovery_retryLoop ops ar fn random now a lastError a delays =
      AutoRecovery_retryLoop ops ?ar1 fn random now (Suc a) e (Suc a)
        (delays @ [AutoRecovery_calculateDelay ops ar (Suc a) (random (Suc a))])"
    using lt Suc.prems(1) rej e
    by (subst AutoRecovery_retryLoop.simps) (simp add: Let_def)
  have ih: "AutoRecovery_retryLoop ops ?ar1 fn random now (Suc a) e (Suc a)
        (delays @ [AutoRecovery_calculateDelay ops ar (Suc a) (random (Suc a))]) =
     \<lparr> run_result = Inr v,
       run_recovery = AutoRecovery_onSuccess
         (if k > 0
          then AutoRecovery_handleRecoverySuccess
                 (?ar1\<lparr>ar_totalRetries := ar_totalRetries ?ar1 + (k - Suc a)\<rparr>) k now
          else ?ar1\<lparr>ar_totalRetries := ar_totalRetries ?ar1 + (k - Suc a)\<rparr>) now,
       run_passBegun = False,
       run_calls = k + 1,
       run_delays = (delays @ [AutoRecovery_calculateDelay ops ar (Suc a) (random (Suc a))])
          @ map (\<lambda>i. AutoRecovery_calculateDelay ops ?ar1 i (random i)) [Suc (Suc a)..<Suc k] \<rparr>"
    using Suc.hyps(2) Suc.prems lt
    by (intro Suc.hyps(1)) auto
  have tr: "?ar1\<lparr>ar_totalRetries := ar_totalRetries ?ar1 + (k - Suc a)\<rparr>
          = ar\<lparr>ar_totalRetries := ar_totalRetries ar + (k - a)\<rparr>"
    using lt by simp
  have up: "[Suc a..<Suc k] = Suc a # [Suc (Suc a)..<Suc k]"
    using lt by (simp add: upt_conv_Cons)
  show ?case
    unfolding step ih tr up by simp
qed

lemma onSuccess_core:
  "ar_failureCount (AutoRecovery_onSuccess ar now) = 0"
  "ar_successCount (AutoRecovery_onSuccess ar now) = ar_successCount ar + 1"
  "ar_state (AutoRecovery_onSuccess ar now)
     = (if ar_state ar \<noteq> HEALTHY \<and> ar_recoveryThreshold ar \<le> ar_successCount ar + 1
        then HEALTHY else ar_state ar)"
  by (simp_all add: AutoRecovery_onSuccess_def AutoRecovery_setState_def
      AutoRecovery_endOutage_def Let_def split: option.splits)

text \<open>Whenever the loop returns a value, its last step was \<^verbatim>\<open>onSuccess\<close>.\<close>

lemma retryLoop_returns:
  "run_result (AutoRecovery_retryLoop ops ar fn random now a lastError calls delays) = Inr w \<Longrightarrow>
     ar_failureCount (run_recovery
        (AutoRecovery_retryLoop ops ar fn random now a lastError calls delays)) = 0
   \<and> ar_successCount (run_recovery
        (AutoRecovery_retryLoop ops ar fn random now a lastError calls delays))
       = ar_successCount ar + 1
   \<and> ar_state (run_recovery
        (AutoRecovery_retryLoop ops ar fn random now a lastError calls delays))
       = (if ar_state ar \<noteq> HEALTHY \<and> ar_recoveryThreshold ar \<le> ar_successCount ar + 1
          then HEALTHY else ar_state ar)"
proof (induction "Suc (ar_maxRetries ar) - a" arbitrary: ar a lastError calls delays)
  case 0
  then have "\<not> a \<le> ar_maxRetries ar" by simp
  then have "\<exists>x. run_result (AutoRecovery_retryLoop ops ar fn random now a lastError calls delays)
                  = Inl x"
    by (subst AutoRecovery_retryLoop.simps) (simp split: prod.splits)
  then show ?case using 0 by simp
next
  case (Suc n)
  then have le: "a \<le> ar_maxRetries ar" by simp
  show ?case
  proof (cases "fn calls")
    case (Resolved r)
    have "AutoRecovery_retryLoop ops ar fn random now a lastError calls delays =
       \<lparr> run_result = Inr r,
         run_recovery = AutoRecovery_onSuccess
            (if a > 0 then AutoRecovery_handleRecoverySuccess ar a now else ar) now,
         run_passBegun = False, run_calls = calls + 1, run_delays = delays \<rparr>"
      using le Resolved by (subst AutoRecovery_retryLoop.simps) (simp add: Let_def)
    then show ?thesis
      by (simp add: onSuccess_core AutoRecovery_handleRecoverySuccess_def)
  next
    case (Rejected e)
    let ?ar1 = "ar\<lparr>ar_totalRetries := ar_totalRetries ar + 1\<rparr>"
    show ?thesis
    proof (cases "e = Nullish")
      case True
      then have "run_result (AutoRecovery_retryLoop ops ar fn random now a lastError calls delays)
                   = Inl TypeError"
        using le Rejected by (subst AutoRecovery_retryLoop.simps) (simp add: Let_def)
      then show ?thesis using Suc.prems by simp
    next
      case False
      define delays' where
        "delays' = (if Suc a \<le> ar_maxRetries ar
                    then delays @ [AutoRecovery_calculateDelay ops ar (Suc a) (random (Suc a))]
                    else delays)"
      have step:
        "AutoRecovery_retryLoop ops ar fn random now a lastError calls delays =
           AutoRecovery_retryLoop ops ?ar1 fn random now (Suc a) e (Suc calls) delays'"
        unfolding delays'_def using le Rejected False
        by (subst AutoRecovery_retryLoop.simps) (simp add: Let_def)
      have m: "n = Suc (ar_maxRetries ?ar1) - Suc a"
        using Suc.hyps(2) by simp
      have "run_result (AutoRecovery_retryLoop ops ?ar1 fn random now (Suc a) e (Suc calls) delays')
              = Inr w"
        using Suc.prems unfolding step .
      from Suc.hyps(1) [OF m this] show ?thesis
        unfolding step by simp
    qed
  qed
qed

lemmas ar_new_defs = AutoRecovery_new_def AutoRecovery_registerDefaultStrategies_def
  AutoRecovery_registerStrategy_def or_default_nat_def or_default_int_def or_default_real_def

lemma calculateDelay_lower:
  assumes "rounding_keeps_order ops"
    and "0 \<le> ar_initialDelay ar" and "0 \<le> ar_backoffMultiplier ar" and "0 \<le> ar_maxDelay ar"
    and "0 \<le> r"
  shows "\<lfloor>min (fl_mul ops (ar_initialDelay ar) (fl_pow ops (ar_backoffMultiplier ar) (int i - 1)))
              (ar_maxDelay ar)\<rfloor>
           \<le> AutoRecovery_calculateDelay ops ar i r"
proof -
  define delay where
    "delay = min (fl_mul ops (ar_initialDelay ar) (fl_pow ops (ar_backoffMultiplier ar) (int i - 1)))
                 (ar_maxDelay ar)"
  have mul: "0 \<le> fl_mul ops x y" if "0 \<le> x" and "0 \<le> y" for x y
    using assms(1) that unfolding rounding_keeps_order_def by blast
  have pow: "0 \<le> fl_pow ops x n" if "0 \<le> x" for x n
    using assms(1) that unfolding rounding_keeps_order_def by blast
  have add: "x \<le> fl_add ops x y" if "0 \<le> y" for x y
    using assms(1) that unfolding rounding_keeps_order_def by blast
  have tenth: "0 \<le> fl_tenth ops"
    using assms(1) unfolding rounding_keeps_order_def by blast
  have "0 \<le> fl_mul ops (ar_initialDelay ar) (fl_pow ops (ar_backoffMultiplier ar) (int i - 1))"
    by (intro mul pow assms(2) assms(3))
  then have "0 \<le> delay"
    unfolding delay_def using assms(4) by simp
  then have "0 \<le> fl_mul ops (fl_mul ops delay (fl_tenth ops)) r"
    by (intro mul tenth assms(5))
  then have "delay \<le> fl_add ops delay (fl_mul ops (fl_mul ops delay (fl_tenth ops)) r)"
    by (rule add)
  then have "\<lfloor>delay\<rfloor> \<le> \<lfloor>fl_add ops delay (fl_mul ops (fl_mul ops delay (fl_tenth ops)) r)\<rfloor>"
    by (rule floor_mono)
  then show ?thesis
    unfolding AutoRecovery_calculateDelay_def Let_def delay_def .
qed

text \<open>
  C3, as the code has it. When the function rejects with an error object on its first
  \<open>k \<le> maxRetries\<close> invocations and resolves on the next, \<^verbatim>\<open>executeWithRecovery\<close> invokes
  it \<open>k + 1\<close> times and returns its value; it waits once per failure, the \<open>i\<close>-th time
  for \<^verbatim>\<open>calculateDelay(i)\<close>. For \<^verbatim>\<open>initialDelay\<close>, \<^verbatim>\<open>backoffMultiplier\<close> and \<^verbatim>\<open>maxDelay\<close> that
  are not negative, each such delay is at least the floor of the capped base delay
  \<^verbatim>\<open>Math.min(initialDelay * Math.pow(backoffMultiplier, i - 1), maxDelay)\<close> as computed
  in double precision (jitter only adds), and so the total wait is at least the sum of
  these floors.
\<close>

theorem C3_retry_then_success:
  assumes "k \<le> ar_maxRetries ar"
    and "\<forall>i<k. rejects_with_error (fn i)"
    and "fn k = Resolved v"
    and "rounding_keeps_order ops"
    and "0 \<le> ar_initialDelay ar" and "0 \<le> ar_backoffMultiplier ar" and "0 \<le> ar_maxDelay ar"
    and "\<forall>a. 0 \<le> random a"
  shows "run_result (AutoRecovery_executeWithRecovery ops ar fn random now) = Inr v
       \<and> run_calls (AutoRecovery_executeWithRecovery ops ar fn random now) = k + 1
       \<and> run_delays (AutoRecovery_executeWithRecovery ops ar fn random now)
           = map (\<lambda>i. AutoRecovery_calculateDelay ops ar i (random i)) [1..<Suc k]
       \<and> (\<forall>i\<in>{1..k}.
             \<lfloor>min (fl_mul ops (ar_initialDelay ar)
                          (fl_pow ops (ar_backoffMultiplier ar) (int i - 1)))
                   (ar_maxDelay ar)\<rfloor>
              \<le> AutoRecovery_calculateDelay ops ar i (random i))
       \<and> (\<Sum>i = 1..k.
             \<lfloor>min (fl_mul ops (ar_initialDelay ar)
                          (fl_pow ops (ar_backoffMultiplier ar) (int i - 1)))
                   (ar_maxDelay ar)\<rfloor>)
           \<le> sum_list (run_delays (AutoRecovery_executeWithRecovery ops ar fn random now))"
proof -
  let ?base = "\<lambda>i. \<lfloor>min (fl_mul ops (ar_initialDelay ar)
                          (fl_pow ops (ar_backoffMultiplier ar) (int i - 1)))
                   (ar_maxDelay ar)\<rfloor>"
  let ?d = "\<lambda>i. AutoRecovery_calculateDelay ops ar i (random i)"
  have run: "AutoRecovery_executeWithRecovery ops ar fn random now =
     \<lparr> run_result = Inr v,
       run_recovery = AutoRecovery_onSuccess
         (if k > 0
          then AutoRecovery_handleRecoverySuccess
                 (ar\<lparr>ar_totalRetries := ar_totalRetries ar + (k - 0)\<rparr>) k now
          else ar\<lparr>ar_totalRetries := ar_totalRetries ar + (k - 0)\<rparr>) now,
       run_passBegun = False,
       run_calls = k + 1,
       run_delays = [] @ map ?d [Suc 0..<Suc k] \<rparr>"
    unfolding AutoRecovery_executeWithRecovery_def
    using assms(1,2,3) by (intro retryLoop_succeeds) auto
  have pointwise: "\<forall>i\<in>{1..k}. ?base i \<le> ?d i"
  proof
    fix i assume "i \<in> {1..k}"
    have r: "0 \<le> random i" using assms(8) by simp
    show "?base i \<le> ?d i"
      by (rule calculateDelay_lower [OF assms(4) assms(5) assms(6) assms(7) r])
  qed
  have "sum_list (map ?base [1..<Suc k]) \<le> sum_list (map ?d [1..<Suc k])"
    using pointwise by (intro sum_list_mono) auto
  moreover have "sum_list (map ?base [1..<Suc k]) = sum ?base (set [1..<Suc k])"
    by (rule sum_list_distinct_conv_sum_set) simp
  moreover have "set [1..<Suc k] = {1..k}"
    by auto
  ultimately have total: "(\<Sum>i = 1..k. ?base i) \<le> sum_list (map ?d [1..<Suc k])"
    by simp
  show ?thesis
    unfolding run using pointwise total by simp
qed

lemma exact_arithmetic_keeps_order: "rounding_keeps_order exact_arithmetic"
  by (simp add: rounding_keeps_order_def exact_arithmetic_def)

lemma scenario_recovery_fields:
  "ar_maxRetries scenario_recovery = 3"
  "ar_initialDelay scenario_recovery = 100"
  "ar_backoffMultiplier scenario_recovery = 2"
  "ar_maxDelay scenario_recovery = 30000"
  by (simp_all add: scenario_recovery_def ar_new_defs)

lemma capped_recovery_fields:
  "ar_maxRetries capped_recovery = 3"
  "ar_initialDelay capped_recovery = 1000"
  "ar_backoffMultiplier capped_recovery = 2"
  "ar_maxDelay capped_recovery = 1500"
  by (simp_all add: capped_recovery_def ar_new_defs)

text \<open>
  Witness of C3: \<^verbatim>\<open>maxRetries\<close> 3, \<^verbatim>\<open>initialDelay\<close> 100, multiplier 2; the function fails
  twice and then succeeds; the total wait is at least 300.
\<close>

theorem C3_retry_then_success_witness:
  "2 \<le> ar_maxRetries scenario_recovery
 \<and> rejects_with_error (fails_twice 0) \<and> rejects_with_error (fails_twice 1)
 \<and> fails_twice 2 = Resolved ()
 \<and> rounding_keeps_order exact_arithmetic
 \<and> 0 \<le> ar_initialDelay scenario_recovery \<and> 0 \<le> ar_backoffMultiplier scenario_recovery
 \<and> 0 \<le> ar_maxDelay scenario_recovery \<and> (\<forall>a. 0 \<le> half_jitter a)
 \<and> run_result (AutoRecovery_executeWithRecovery exact_arithmetic scenario_recovery fails_twice
       half_jitter 0) = Inr ()
 \<and> run_calls (AutoRecovery_executeWithRecovery exact_arithmetic scenario_recovery fails_twice
       half_jitter 0) = 3
 \<and> 300 \<le> sum_list (run_delays
       (AutoRecovery_executeWithRecovery exact_arithmetic scenario_recovery fails_twice
          half_jitter 0))"
proof -
  have h1: "2 \<le> ar_maxRetries scenario_recovery"
    by (simp add: scenario_recovery_fields)
  have h2: "\<forall>i<2. rejects_with_error (fails_twice i)"
    by (simp add: fails_twice_def)
  have h3: "fails_twice 2 = Resolved ()"
    by (simp add: fails_twice_def)
  have h4: "0 \<le> ar_initialDelay scenario_recovery"
    by (simp add: scenario_recovery_fields)
  have h5: "0 \<le> ar_backoffMultiplier scenario_recovery"
    by (simp add: scenario_recovery_fields)
  have h6: "0 \<le> ar_maxDelay scenario_recovery"
    by (simp add: scenario_recovery_fields)
  have h7: "\<forall>a. 0 \<le> half_jitter a"
    by (simp add: half_jitter_def)
  note r = C3_retry_then_success [OF h1 h2 h3 exact_arithmetic_keeps_order h4 h5 h6 h7, of 0]
  have base: "(\<Sum>i = 1..2. \<lfloor>min (fl_mul exact_arithmetic (ar_initialDelay scenario_recovery)
                  (fl_pow exact_arithmetic (ar_backoffMultiplier scenario_recovery) (int i - 1)))
                  (ar_maxDelay scenario_recovery)\<rfloor>) = 300"
    by (simp add: scenario_recovery_fields exact_arithmetic_def numeral_2_eq_2)
  have c1: "run_result (AutoRecovery_executeWithRecovery exact_arithmetic scenario_recovery
              fails_twice half_jitter 0) = Inr ()"
    using r by blast
  have c2: "run_calls (AutoRecovery_executeWithRecovery exact_arithmetic scenario_recovery
              fails_twice half_jitter 0) = 3"
    using r by simp
  have c3: "300 \<le> sum_list (run_delays
       (AutoRecovery_executeWithRecovery exact_arithmetic scenario_recovery fails_twice
          half_jitter 0))"
    using r unfolding base by blast
  have r0: "rejects_with_error (fails_twice 0)" and r1: "rejects_with_error (fails_twice 1)"
    by (simp_all add: fails_twice_def)
  show ?thesis
    using h1 r0 r1 h3 exact_arithmetic_keeps_order h4 h5 h6 h7 c1 c2 c3 by blast
qed

lemma capped_run_delays:
  "run_delays (AutoRecovery_executeWithRecovery exact_arithmetic capped_recovery fails_twice
     no_jitter 0) = [1000, 1500]"
proof -
  have "AutoRecovery_retryLoop exact_arithmetic capped_recovery fails_twice no_jitter 0 0 Nullish 0 [] =
     \<lparr> run_result = Inr (),
       run_recovery = AutoRecovery_onSuccess
         (if 2 > (0::nat)
          then AutoRecovery_handleRecoverySuccess
                 (capped_recovery\<lparr>ar_totalRetries := ar_totalRetries capped_recovery + (2 - 0)\<rparr>) 2 0
          else capped_recovery\<lparr>ar_totalRetries := ar_totalRetries capped_recovery + (2 - 0)\<rparr>) 0,
       run_passBegun = False,
       run_calls = 2 + 1,
       run_delays = [] @ map (\<lambda>i. AutoRecovery_calculateDelay exact_arithmetic capped_recovery i
                                     (no_jitter i))
                          [Suc 0..<Suc 2] \<rparr>"
    by (rule retryLoop_succeeds) (simp_all add: capped_recovery_fields fails_twice_def)
  then have "run_delays (AutoRecovery_executeWithRecovery exact_arithmetic capped_recovery
                fails_twice no_jitter 0)
      = map (\<lambda>i. AutoRecovery_calculateDelay exact_arithmetic capped_recovery i (no_jitter i))
          [Suc 0..<Suc 2]"
    by (simp add: AutoRecovery_executeWithRecovery_def)
  also have "[Suc 0..<Suc 2] = [1, 2]"
    by (simp add: upt_rec)
  also have "map (\<lambda>i. AutoRecovery_calculateDelay exact_arithmetic capped_recovery i (no_jitter i))
               [1, 2] = [1000, 1500]"
    by (simp add: AutoRecovery_calculateDelay_def capped_recovery_fields no_jitter_def
        exact_arithmetic_def)
  finally show ?thesis .
qed

text \<open>
  C3 as stated fails once the cap is reached: with \<^verbatim>\<open>initialDelay\<close> 1000, multiplier 2 and
  \<^verbatim>\<open>maxDelay\<close> 1500, a function that fails twice and then succeeds, and no jitter, the
  waits are 1000 and 1500, in total 2500, less than \<open>1000 * 2 ^ 0 + 1000 * 2 ^ 1\<close>. All
  the numbers that arise are integers that double precision computes without rounding.
\<close>

theorem C3_counterexample:
  "ar_maxRetries capped_recovery = 3
 \<and> rejects_with_error (fails_twice 0) \<and> rejects_with_error (fails_twice 1)
 \<and> fails_twice 2 = Resolved ()
 \<and> sum_list (run_delays (AutoRecovery_executeWithRecovery exact_arithmetic capped_recovery
       fails_twice no_jitter 0)) = 2500
 \<and> real_of_int (sum_list (run_delays
       (AutoRecovery_executeWithRecovery exact_arithmetic capped_recovery fails_twice no_jitter 0)))
     < ar_initialDelay capped_recovery * ar_backoffMultiplier capped_recovery ^ 0
       + ar_initialDelay capped_recovery * ar_backoffMultiplier capped_recovery ^ 1"
  by (simp add: capped_run_delays capped_recovery_fields fails_twice_def)

lemma strategy_execute_keeps:
  "ar_onRecover (snd (AutoRecovery_strategy_execute s e ar)) = ar_onRecover ar"
  "ar_isRecovering (snd (AutoRecovery_strategy_execute s e ar)) = ar_isRecovering ar"
  by (cases s; simp add: AutoRecovery_setState_def Let_def split: option.splits)+

lemma strategy_raises_cong:
  "ar_onRecover ar' = ar_onRecover ar \<Longrightarrow> strategy_raises ar' e p = strategy_raises ar e p"
  unfolding strategy_raises_def by (cases "snd p") (simp_all split: option.splits)

text \<open>
  The strategies invoked are those that raise an error object, up to and including the
  first one that does not.
\<close>

lemma runStrategies_names:
  "pass_invoked (AutoRecovery_runStrategies ps e ar)
     = map fst (takeWhile (strategy_raises ar e) ps)
       @ map fst (take 1 (dropWhile (strategy_raises ar e) ps))"
proof (induction ps arbitrary: ar)
  case Nil
  then show ?case by simp
next
  case (Cons p rest)
  obtain out ar1 where ex: "AutoRecovery_strategy_execute (snd p) e ar = (out, ar1)"
    by (cases "AutoRecovery_strategy_execute (snd p) e ar")
  have keep: "ar_onRecover ar1 = ar_onRecover ar"
    using strategy_execute_keeps(1) [of "snd p" e ar] ex by simp
  show ?case
  proof (cases out)
    case (Resolved u)
    then show ?thesis using ex by (simp add: strategy_raises_def)
  next
    case (Rejected strategyError)
    show ?thesis
    proof (cases "strategyError = Nullish")
      case True
      then show ?thesis using ex Rejected by (simp add: strategy_raises_def)
    next
      case False
      have same: "strategy_raises ar1 e = strategy_raises ar e"
        using strategy_raises_cong [OF keep] by (intro ext)
      have "pass_invoked (AutoRecovery_runStrategies (p # rest) e ar)
              = fst p # pass_invoked (AutoRecovery_runStrategies rest e ar1)"
        using ex Rejected False by (simp add: Let_def)
      then show ?thesis
        using Cons.IH [of ar1] ex Rejected False unfolding same by (simp add: strategy_raises_def)
    qed
  qed
qed

lemma runStrategies_keeps_guard:
  "ar_isRecovering (pass_recovery (AutoRecovery_runStrategies ps e ar)) = ar_isRecovering ar"
proof (induction ps arbitrary: ar)
  case Nil
  then show ?case by simp
next
  case (Cons p rest)
  obtain out ar1 where ex: "AutoRecovery_strategy_execute (snd p) e ar = (out, ar1)"
    by (cases "AutoRecovery_strategy_execute (snd p) e ar")
  have keep: "ar_isRecovering ar1 = ar_isRecovering ar"
    using strategy_execute_keeps(2) [of "snd p" e ar] ex by simp
  show ?case
    using ex keep Cons.IH [of ar1] by (cases out) (simp_all add: Let_def)
qed

lemmas ar_step_defs = AutoRecovery_handleFailure_def AutoRecovery_handleFailure_count_def
  AutoRecovery_attemptRecovery_begin_def AutoRecovery_setState_def AutoRecovery_startOutage_def
  AutoRecovery_endOutage_def AutoRecovery_onSuccess_def AutoRecovery_performHealthCheck_def
  AutoRecovery_handleRecoverySuccess_def keep_last_100_def

text \<open>
  Without \<^verbatim>\<open>reset\<close>, at most one pass is in flight, and the guard is set exactly while
  one is.
\<close>

lemma one_pass_in_flight:
  "passes_in_flight ar n \<Longrightarrow> n \<le> 1 \<and> (ar_isRecovering ar \<longleftrightarrow> n = 1)"
proof (induction rule: passes_in_flight.induct)
  case (pif_new maxRetriesOpt initialDelayOpt maxDelayOpt backoffMultiplierOpt
      healthCheckIntervalOpt failureThresholdOpt recoveryThresholdOpt onRecoverOpt)
  then show ?case by (simp add: ar_new_defs)
next
  case (pif_register ar n name s)
  then show ?case by (simp add: AutoRecovery_registerStrategy_def)
next
  case (pif_retry ar n)
  then show ?case by simp
next
  case (pif_recovered ar n attempts now)
  then show ?case by (simp add: AutoRecovery_handleRecoverySuccess_def)
next
  case (pif_success ar n now)
  then show ?case
    by (simp add: AutoRecovery_onSuccess_def AutoRecovery_setState_def AutoRecovery_endOutage_def
        Let_def split: option.splits)
next
  case (pif_handleFailure ar n e now)
  have "ar_isRecovering (AutoRecovery_handleFailure_count ar now) = ar_isRecovering ar"
    by (simp add: AutoRecovery_handleFailure_count_def AutoRecovery_setState_def
        AutoRecovery_startOutage_def Let_def split: option.splits)
  then show ?case
    using pif_handleFailure.IH
    by (auto simp: AutoRecovery_handleFailure_def AutoRecovery_attemptRecovery_begin_def
        AutoRecovery_setState_def Let_def)
next
  case (pif_healthCheck ar n h now)
  have count: "ar_isRecovering (AutoRecovery_handleFailure_count a now) = ar_isRecovering a" for a
    by (simp add: AutoRecovery_handleFailure_count_def AutoRecovery_setState_def
        AutoRecovery_startOutage_def Let_def split: option.splits)
  have success: "ar_isRecovering (AutoRecovery_onSuccess a now) = ar_isRecovering a" for a
    by (simp add: AutoRecovery_onSuccess_def AutoRecovery_setState_def AutoRecovery_endOutage_def
        Let_def split: option.splits)
  show ?case
  proof (cases h)
    case (Resolved r)
    then show ?thesis
      using pif_healthCheck.IH success
      by (simp add: AutoRecovery_performHealthCheck_def Let_def)
  next
    case (Rejected e)
    then show ?thesis
      using pif_healthCheck.IH count
      by (auto simp: AutoRecovery_performHealthCheck_def AutoRecovery_handleFailure_def
          AutoRecovery_attemptRecovery_begin_def AutoRecovery_setState_def Let_def)
  qed
next
  case (pif_begin ar n ar1)
  then show ?case
    by (auto simp: AutoRecovery_attemptRecovery_begin_def AutoRecovery_setState_def Let_def
        split: if_splits)
next
  case (pif_strategy ar n s e)
  then show ?case by (simp add: strategy_execute_keeps)
next
  case (pif_end ar n)
  then show ?case by auto
qed

lemma reset_clears_guard: "\<not> ar_isRecovering (AutoRecovery_reset ar now)"
  by (simp add: AutoRecovery_reset_def AutoRecovery_setState_def AutoRecovery_endOutage_def
      Let_def split: option.splits)

text \<open>
  C5, as the code has it. While the guard \<^verbatim>\<open>isRecovering\<close> is set, \<^verbatim>\<open>attemptRecovery\<close>
  changes nothing and invokes no strategy. Otherwise it sets the guard and the state
  RECOVERING, the guard stays set while the strategies run, and it is cleared at the
  end whatever the strategies did; when no strategy rejects without a reason, the
  strategies invoked are, in registration order, those that raise up to and including
  the first one that does not. \<^verbatim>\<open>reset\<close> clears the guard. In every recovery that arises
  without \<^verbatim>\<open>reset\<close>, at most one pass is in flight and the guard is set exactly while
  one is.
\<close>

theorem C5_recovery_pass:
  "(ar_isRecovering ar \<longrightarrow>
      AutoRecovery_attemptRecovery_begin ar = None
    \<and> AutoRecovery_attemptRecovery ar e
        = \<lparr> pass_invoked = [], pass_recovery = ar, pass_thrown = None \<rparr>)
 \<and> (\<not> ar_isRecovering ar \<longrightarrow>
      (\<exists>ar1. AutoRecovery_attemptRecovery_begin ar = Some ar1
           \<and> ar_isRecovering ar1 \<and> ar_state ar1 = RECOVERING
           \<and> ar_isRecovering (pass_recovery
                (AutoRecovery_runStrategies (ar_strategies ar1) e ar1)))
    \<and> ((\<forall>p\<in>set (ar_strategies ar). \<not> strategy_rejects_without_reason ar e p) \<longrightarrow>
         pass_invoked (AutoRecovery_attemptRecovery ar e)
           = map fst (takeWhile (strategy_raises ar e) (ar_strategies ar))
             @ map fst (take 1 (dropWhile (strategy_raises ar e) (ar_strategies ar))))
    \<and> \<not> ar_isRecovering (pass_recovery (AutoRecovery_attemptRecovery ar e)))
 \<and> \<not> ar_isRecovering (AutoRecovery_reset ar now)
 \<and> (passes_in_flight ar n \<longrightarrow> n \<le> 1 \<and> (ar_isRecovering ar \<longleftrightarrow> n = 1))"
proof -
  let ?ar1 = "AutoRecovery_setState (ar\<lparr>ar_isRecovering := True\<rparr>) RECOVERING"
  have f: "ar_isRecovering ?ar1" "ar_state ?ar1 = RECOVERING"
    "ar_strategies ?ar1 = ar_strategies ar" "ar_onRecover ?ar1 = ar_onRecover ar"
    by (simp_all add: AutoRecovery_setState_def Let_def)
  have same: "strategy_raises ?ar1 e = strategy_raises ar e"
    using strategy_raises_cong [OF f(4)] by (intro ext)
  have guard: "ar_isRecovering (pass_recovery
      (AutoRecovery_runStrategies (ar_strategies ?ar1) e ?ar1))"
    using f(1) by (simp add: runStrategies_keeps_guard)
  have names: "pass_invoked (AutoRecovery_attemptRecovery_rest ?ar1 e)
        = map fst (takeWhile (strategy_raises ar e) (ar_strategies ar))
          @ map fst (take 1 (dropWhile (strategy_raises ar e) (ar_strategies ar)))"
    using runStrategies_names [of "ar_strategies ?ar1" e ?ar1] unfolding same f(3)
    by (simp add: AutoRecovery_attemptRecovery_rest_def Let_def f(3))
  have cleared: "\<not> ar_isRecovering (pass_recovery (AutoRecovery_attemptRecovery_rest ?ar1 e))"
    by (simp add: AutoRecovery_attemptRecovery_rest_def Let_def)
  have first: "ar_isRecovering ar \<longrightarrow>
      AutoRecovery_attemptRecovery_begin ar = None
    \<and> AutoRecovery_attemptRecovery ar e
        = \<lparr> pass_invoked = [], pass_recovery = ar, pass_thrown = None \<rparr>"
    by (simp add: AutoRecovery_attemptRecovery_def AutoRecovery_attemptRecovery_begin_def)
  have second: "\<not> ar_isRecovering ar \<longrightarrow>
      (\<exists>ar1. AutoRecovery_attemptRecovery_begin ar = Some ar1
           \<and> ar_isRecovering ar1 \<and> ar_state ar1 = RECOVERING
           \<and> ar_isRecovering (pass_recovery
                (AutoRecovery_runStrategies (ar_strategies ar1) e ar1)))
    \<and> ((\<forall>p\<in>set (ar_strategies ar). \<not> strategy_rejects_without_reason ar e p) \<longrightarrow>
         pass_invoked (AutoRecovery_attemptRecovery ar e)
           = map fst (takeWhile (strategy_raises ar e) (ar_strategies ar))
             @ map fst (take 1 (dropWhile (strategy_raises ar e) (ar_strategies ar))))
    \<and> \<not> ar_isRecovering (pass_recovery (AutoRecovery_attemptRecovery ar e))"
    using f(1,2) guard names cleared
    by (simp add: AutoRecovery_attemptRecovery_def AutoRecovery_attemptRecovery_begin_def)
  show ?thesis
    using first second reset_clears_guard [of ar now] one_pass_in_flight [of ar n] by blast
qed

lemma retry_replaced_fields:
  "ar_isRecovering retry_replaced = False"
  "ar_onRecover retry_replaced = None"
  "ar_strategies retry_replaced =
     [(''RETRY'', CustomStrategy always_rejects), (''RESTART'', RestartStrategy),
      (''DEGRADE'', DegradeStrategy)]"
  by (simp_all add: retry_replaced_def fresh_recovery_def ar_new_defs)

lemma pass_in_flight_fields:
  "ar_isRecovering pass_in_flight = True"
  "ar_state pass_in_flight = RECOVERING"
  "ar_onRecover pass_in_flight = None"
  "ar_strategies pass_in_flight =
     [(''RETRY'', CustomStrategy always_rejects), (''RESTART'', RestartStrategy),
      (''DEGRADE'', DegradeStrategy)]"
  by (simp_all add: pass_in_flight_def retry_replaced_def fresh_recovery_def ar_new_defs
      ar_step_defs Let_def)

lemma passes_in_flight_fixture: "passes_in_flight pass_in_flight 1"
proof -
  have "passes_in_flight retry_replaced 0"
    unfolding retry_replaced_def fresh_recovery_def by (intro pif_register pif_new)
  from pif_handleFailure [OF this, of "OperationError ''Test error''" 0]
  have "passes_in_flight pass_in_flight
      (if fst (snd (AutoRecovery_handleFailure retry_replaced (OperationError ''Test error'') 0))
       then 0 + 1 else 0)"
    by (simp add: pass_in_flight_def)
  moreover have "fst (snd (AutoRecovery_handleFailure retry_replaced
      (OperationError ''Test error'') 0))"
    by (simp add: AutoRecovery_handleFailure_def AutoRecovery_attemptRecovery_begin_def
        AutoRecovery_handleFailure_count_def AutoRecovery_setState_def
        AutoRecovery_startOutage_def retry_replaced_fields Let_def split: option.splits)
  ultimately show ?thesis by simp
qed

text \<open>
  Witness of C5: a registry whose RETRY entry was replaced by a strategy that rejects.
  A pass on it invokes RETRY and then RESTART (which resolves, there being no
  \<^verbatim>\<open>onRecover\<close>), and not DEGRADE; a second call while the first pass is in flight does
  nothing.
\<close>

theorem C5_recovery_pass_witness:
  "ar_isRecovering pass_in_flight
 \<and> passes_in_flight pass_in_flight 1
 \<and> pass_invoked (AutoRecovery_attemptRecovery pass_in_flight ManualRecoveryError) = []
 \<and> pass_recovery (AutoRecovery_attemptRecovery pass_in_flight ManualRecoveryError) = pass_in_flight
 \<and> \<not> ar_isRecovering retry_replaced
 \<and> \<not> strategy_rejects_without_reason retry_replaced ManualRecoveryError
       (''RETRY'', CustomStrategy always_rejects)
 \<and> \<not> strategy_rejects_without_reason retry_replaced ManualRecoveryError
       (''RESTART'', RestartStrategy)
 \<and> \<not> strategy_rejects_without_reason retry_replaced ManualRecoveryError
       (''DEGRADE'', DegradeStrategy)
 \<and> pass_invoked (AutoRecovery_attemptRecovery retry_replaced ManualRecoveryError)
     = [''RETRY'', ''RESTART'']
 \<and> \<not> ar_isRecovering (pass_recovery
       (AutoRecovery_attemptRecovery retry_replaced ManualRecoveryError))"
proof -
  have h1: "ar_isRecovering pass_in_flight"
    by (simp add: pass_in_flight_fields)
  have h2: "\<not> ar_isRecovering retry_replaced"
    by (simp add: retry_replaced_fields)
  have h3: "\<not> strategy_rejects_without_reason retry_replaced ManualRecoveryError
       (''RETRY'', CustomStrategy always_rejects)"
    "\<not> strategy_rejects_without_reason retry_replaced ManualRecoveryError
       (''RESTART'', RestartStrategy)"
    "\<not> strategy_rejects_without_reason retry_replaced ManualRecoveryError
       (''DEGRADE'', DegradeStrategy)"
    by (simp_all add: strategy_rejects_without_reason_def always_rejects_def
        retry_replaced_fields)
  then have h4: "\<forall>p\<in>set (ar_strategies retry_replaced).
      \<not> strategy_rejects_without_reason retry_replaced ManualRecoveryError p"
    by (simp add: retry_replaced_fields)
  note r1 = C5_recovery_pass [of pass_in_flight ManualRecoveryError 0 1]
  note r2 = C5_recovery_pass [of retry_replaced ManualRecoveryError 0 0]
  have "AutoRecovery_attemptRecovery pass_in_flight ManualRecoveryError
          = \<lparr> pass_invoked = [], pass_recovery = pass_in_flight, pass_thrown = None \<rparr>"
    using r1 h1 by blast
  then have c1: "pass_invoked (AutoRecovery_attemptRecovery pass_in_flight ManualRecoveryError) = []"
    "pass_recovery (AutoRecovery_attemptRecovery pass_in_flight ManualRecoveryError)
       = pass_in_flight"
    by simp_all
  have names: "map fst (takeWhile (strategy_raises retry_replaced ManualRecoveryError)
                          (ar_strategies retry_replaced))
          @ map fst (take 1 (dropWhile (strategy_raises retry_replaced ManualRecoveryError)
                          (ar_strategies retry_replaced)))
        = [''RETRY'', ''RESTART'']"
    by (simp add: retry_replaced_fields strategy_raises_def always_rejects_def)
  have c2: "pass_invoked (AutoRecovery_attemptRecovery retry_replaced ManualRecoveryError)
              = [''RETRY'', ''RESTART'']"
    using r2 h2 h4 unfolding names by blast
  have c3: "\<not> ar_isRecovering (pass_recovery
       (AutoRecovery_attemptRecovery retry_replaced ManualRecoveryError))"
    using r2 h2 by blast
  show ?thesis
    using h1 passes_in_flight_fixture h2 h3 c1 c2 c3 by blast
qed

text \<open>
  C5 as stated fails when \<^verbatim>\<open>reset\<close> is called while a pass is in flight. A failure has
  begun a pass (one pass in flight, the guard set); \<^verbatim>\<open>reset\<close> at time 5 clears the guard
  though the pass has not ended; \<^verbatim>\<open>attemptRecovery\<close> then is no no-op: it begins a second
  pass and invokes RETRY and RESTART.
\<close>

theorem C5_counterexample:
  "passes_in_flight pass_in_flight 1
 \<and> ar_isRecovering pass_in_flight
 \<and> \<not> ar_isRecovering (AutoRecovery_reset pass_in_flight 5)
 \<and> pass_invoked (AutoRecovery_attemptRecovery (AutoRecovery_reset pass_in_flight 5)
       ManualRecoveryError) = [''RETRY'', ''RESTART'']"
proof -
  let ?r = "AutoRecovery_reset pass_in_flight 5"
  have f: "ar_isRecovering ?r = False" "ar_onRecover ?r = None"
    "ar_strategies ?r =
       [(''RETRY'', CustomStrategy always_rejects), (''RESTART'', RestartStrategy),
        (''DEGRADE'', DegradeStrategy)]"
    by (simp_all add: AutoRecovery_reset_def AutoRecovery_setState_def AutoRecovery_endOutage_def
        pass_in_flight_fields Let_def split: option.splits)
  have "pass_invoked (AutoRecovery_attemptRecovery ?r ManualRecoveryError)
      = pass_invoked (AutoRecovery_runStrategies (ar_strategies ?r) ManualRecoveryError
          (AutoRecovery_setState (?r\<lparr>ar_isRecovering := True\<rparr>) RECOVERING))"
    using f(1)
    by (simp add: AutoRecovery_attemptRecovery_def AutoRecovery_attemptRecovery_begin_def
        AutoRecovery_attemptRecovery_rest_def AutoRecovery_setState_def Let_def)
  also have "\<dots> = [''RETRY'', ''RESTART'']"
    unfolding f(3)
    by (simp add: always_rejects_def AutoRecovery_setState_def f(2) Let_def)
  finally show ?thesis
    using passes_in_flight_fixture f(1) by (simp add: pass_in_flight_fields)
qed

text \<open>
  C8, as the code has it. A health check that succeeds while the state is not HEALTHY
  leaves \<^verbatim>\<open>failureCount\<close>, \<^verbatim>\<open>successCount\<close> and the state exactly as a successful call of
  \<^verbatim>\<open>executeWithRecovery\<close> does: the failure counter is 0, the success counter one more,
  and the state HEALTHY once the success counter has reached \<^verbatim>\<open>recoveryThreshold\<close>. While
  the state is HEALTHY the health check leaves the two counters and the state as they
  are, whereas the successful call still adds one to the success counter.
\<close>

theorem C8_health_check_success:
  assumes "run_result (AutoRecovery_executeWithRecovery ops ar fn random now) = Inr w"
  shows "let checked = fst (AutoRecovery_performHealthCheck ar (Resolved v) now);
             called = run_recovery (AutoRecovery_executeWithRecovery ops ar fn random now)
         in (ar_state ar \<noteq> HEALTHY \<longrightarrow>
               ar_failureCount checked = ar_failureCount called
             \<and> ar_successCount checked = ar_successCount called
             \<and> ar_state checked = ar_state called
             \<and> ar_failureCount checked = 0
             \<and> ar_successCount checked = ar_successCount ar + 1
             \<and> ar_state checked
                 = (if ar_recoveryThreshold ar \<le> ar_successCount ar + 1 then HEALTHY
                    else ar_state ar))
          \<and> (ar_state ar = HEALTHY \<longrightarrow>
               ar_failureCount checked = ar_failureCount ar
             \<and> ar_successCount checked = ar_successCount ar
             \<and> ar_state checked = HEALTHY
             \<and> ar_successCount called = ar_successCount ar + 1)"
proof -
  note called = retryLoop_returns [OF assms [unfolded AutoRecovery_executeWithRecovery_def],
      folded AutoRecovery_executeWithRecovery_def]
  have unhealthy: "fst (AutoRecovery_performHealthCheck ar (Resolved v) now)
      = AutoRecovery_onSuccess
          (ar\<lparr>ar_healthCheckSuccesses := ar_healthCheckSuccesses ar + 1,
              ar_lastHealthCheck := Some (now, True)\<rparr>) now"
    if "ar_state ar \<noteq> HEALTHY"
    using that by (simp add: AutoRecovery_performHealthCheck_def Let_def)
  have healthy: "fst (AutoRecovery_performHealthCheck ar (Resolved v) now)
      = ar\<lparr>ar_healthCheckSuccesses := ar_healthCheckSuccesses ar + 1,
            ar_lastHealthCheck := Some (now, True)\<rparr>"
    if "ar_state ar = HEALTHY"
    using that by (simp add: AutoRecovery_performHealthCheck_def Let_def)
  show ?thesis
  proof (cases "ar_state ar = HEALTHY")
    case True
    then show ?thesis
      unfolding Let_def using healthy called by simp
  next
    case False
    then show ?thesis
      unfolding Let_def using unhealthy called by (simp add: onSuccess_core)
  qed
qed

lemma fresh_recovery_fields:
  "ar_state fresh_recovery = HEALTHY"
  "ar_successCount fresh_recovery = 0"
  "ar_maxRetries fresh_recovery = 3"
  by (simp_all add: fresh_recovery_def ar_new_defs)

lemma after_failed_probe_fields:
  "ar_state after_failed_probe = RECOVERING"
  "ar_successCount after_failed_probe = 0"
  "ar_maxRetries after_failed_probe = 3"
  by (simp_all add: after_failed_probe_def fresh_recovery_def ar_new_defs ar_step_defs Let_def)

lemma fails_twice_returns:
  assumes "2 \<le> ar_maxRetries ar"
  shows "run_result (AutoRecovery_executeWithRecovery ops ar fails_twice random now) = Inr ()"
proof -
  have "AutoRecovery_retryLoop ops ar fails_twice random now 0 Nullish 0 [] =
     \<lparr> run_result = Inr (),
       run_recovery = AutoRecovery_onSuccess
         (if 2 > (0::nat)
          then AutoRecovery_handleRecoverySuccess
                 (ar\<lparr>ar_totalRetries := ar_totalRetries ar + (2 - 0)\<rparr>) 2 now
          else ar\<lparr>ar_totalRetries := ar_totalRetries ar + (2 - 0)\<rparr>) now,
       run_passBegun = False,
       run_calls = 2 + 1,
       run_delays = [] @ map (\<lambda>i. AutoRecovery_calculateDelay ops ar i (random i))
                          [Suc 0..<Suc 2] \<rparr>"
    using assms by (intro retryLoop_succeeds) (simp_all add: fails_twice_def)
  then show ?thesis
    by (simp add: AutoRecovery_executeWithRecovery_def)
qed

text \<open>
  Witness of C8: a recovery after one failed probe (state RECOVERING), and a fresh one
  (state HEALTHY), each with a function that fails twice and then succeeds.
\<close>

theorem C8_health_check_success_witness:
  "ar_state after_failed_probe \<noteq> HEALTHY
 \<and> run_result (AutoRecovery_executeWithRecovery exact_arithmetic after_failed_probe fails_twice
       no_jitter 10) = Inr ()
 \<and> ar_successCount (fst (AutoRecovery_performHealthCheck after_failed_probe (Resolved ()) 10))
     = ar_successCount (run_recovery
         (AutoRecovery_executeWithRecovery exact_arithmetic after_failed_probe fails_twice
            no_jitter 10))
 \<and> ar_successCount (fst (AutoRecovery_performHealthCheck after_failed_probe (Resolved ()) 10)) = 1
 \<and> ar_state fresh_recovery = HEALTHY
 \<and> run_result (AutoRecovery_executeWithRecovery exact_arithmetic fresh_recovery fails_twice
       no_jitter 10) = Inr ()
 \<and> ar_successCount (fst (AutoRecovery_performHealthCheck fresh_recovery (Resolved ()) 10))
     = ar_successCount fresh_recovery"
proof -
  have h1: "ar_state after_failed_probe \<noteq> HEALTHY"
    by (simp add: after_failed_probe_fields)
  have h2: "run_result (AutoRecovery_executeWithRecovery exact_arithmetic after_failed_probe
              fails_twice no_jitter 10) = Inr ()"
    by (rule fails_twice_returns) (simp add: after_failed_probe_fields)
  have h5: "ar_state fresh_recovery = HEALTHY"
    by (simp add: fresh_recovery_fields)
  have h6: "run_result (AutoRecovery_executeWithRecovery exact_arithmetic fresh_recovery
              fails_twice no_jitter 10) = Inr ()"
    by (rule fails_twice_returns) (simp add: fresh_recovery_fields)
  note r1 = C8_health_check_success [OF h2, of "()", unfolded Let_def]
  note r2 = C8_health_check_success [OF h6, of "()", unfolded Let_def]
  have c1: "ar_successCount (fst (AutoRecovery_performHealthCheck after_failed_probe (Resolved ()) 10))
     = ar_successCount (run_recovery
         (AutoRecovery_executeWithRecovery exact_arithmetic after_failed_probe fails_twice
            no_jitter 10))"
    using r1 h1 by blast
  have c2: "ar_successCount (fst (AutoRecovery_performHealthCheck after_failed_probe (Resolved ()) 10))
     = ar_successCount after_failed_probe + 1"
    using r1 h1 by blast
  have c3: "ar_successCount (fst (AutoRecovery_performHealthCheck fresh_recovery (Resolved ()) 10))
     = ar_successCount fresh_recovery"
    using r2 h5 by blast
  have c2': "ar_successCount (fst (AutoRecovery_performHealthCheck after_failed_probe (Resolved ()) 10))
     = 1"
    using c2 by (simp add: after_failed_probe_fields)
  show ?thesis
    using h1 h2 h5 h6 c1 c2' c3 by blast
qed

text \<open>
  C8 as stated fails on a fresh recovery (state HEALTHY): a successful health check
  leaves \<^verbatim>\<open>successCount\<close> at 0, a successful call of \<^verbatim>\<open>executeWithRecovery\<close> makes it 1.
\<close>

theorem C8_counterexample:
  "ar_state fresh_recovery = HEALTHY
 \<and> always_succeeds 0 = Resolved ()
 \<and> ar_successCount (fst (AutoRecovery_performHealthCheck fresh_recovery (Resolved ()) 0)) = 0
 \<and> ar_successCount (run_recovery
       (AutoRecovery_executeWithRecovery exact_arithmetic fresh_recovery always_succeeds
          no_jitter 0)) = 1"
proof -
  have "AutoRecovery_executeWithRecovery exact_arithmetic fresh_recovery always_succeeds no_jitter 0
      = \<lparr> run_result = Inr (), run_recovery = AutoRecovery_onSuccess fresh_recovery 0,
          run_passBegun = False, run_calls = 0 + 1, run_delays = [] \<rparr>"
    unfolding AutoRecovery_executeWithRecovery_def
    by (subst AutoRecovery_retryLoop.simps) (simp add: always_succeeds_def Let_def)
  then have run: "ar_successCount (run_recovery
       (AutoRecovery_executeWithRecovery exact_arithmetic fresh_recovery always_succeeds
          no_jitter 0)) = ar_successCount fresh_recovery + 1"
    by (simp add: onSuccess_core)
  have check: "ar_successCount (fst (AutoRecovery_performHealthCheck fresh_recovery (Resolved ()) 0))
     = 0"
    by (simp add: AutoRecovery_performHealthCheck_def fresh_recovery_fields Let_def)
  show ?thesis
    using run check by (simp add: fresh_recovery_fields always_succeeds_def)
qed

end
